theory Spec2Isabelle
  imports Complex_Main
begin

section \<open>JavaScript values\<close>

text \<open>
  The backup engine of \<^verbatim>\<open>src/utils/backup.ts\<close> works on two kinds of data: untyped
  values that come out of \<^verbatim>\<open>JSON.parse\<close> (TypeScript's \<^verbatim>\<open>unknown\<close>) and the typed
  records \<^verbatim>\<open>ChannelTimer\<close>, \<^verbatim>\<open>BossTable\<close>, \<^verbatim>\<open>ExportPayload\<close>, \<^verbatim>\<open>MergeConflict\<close> and
  \<^verbatim>\<open>MergePreview\<close>.

  A JavaScript number is a finite value, NaN or an infinity. Every finite double is a
  real number, and the only arithmetic the engine performs (\<^verbatim>\<open>Math.floor\<close>,
  \<^verbatim>\<open>Math.max\<close>, \<^verbatim>\<open>Math.min\<close>, comparison, and \<^verbatim>\<open>idx + 1\<close> below 50) is exact on
  doubles, so finite numbers are modelled as \<^typ>\<open>real\<close>; negative zero is identified
  with zero, as \<^verbatim>\<open>===\<close> does. Strings are \<^typ>\<open>string\<close>: one \<^typ>\<open>char\<close> stands for
  one code unit.
\<close>

datatype jsnum = Fin real | NaN | PosInf | NegInf

datatype jsval =
    JUndef
  | JNull
  | JBool bool
  | JNum jsnum
  | JStr string
  | JArr "jsval list"
  | JObj "(string \<times> jsval) list"

text \<open>
  \<^verbatim>\<open>new Map(entries)\<close>, \<^verbatim>\<open>Map.prototype.set\<close> and \<^verbatim>\<open>Map.prototype.get\<close>: a JavaScript
  Map keeps its keys in insertion order, and setting a key that is present replaces the
  value where the key stands. An object literal or a parsed JSON object behaves the same
  way for its own properties.
\<close>

fun mapSet :: "'k \<Rightarrow> 'v \<Rightarrow> ('k \<times> 'v) list \<Rightarrow> ('k \<times> 'v) list" where
  "mapSet k v [] = [(k, v)]"
| "mapSet k v (p # ps) = (if fst p = k then (k, v) # ps else p # mapSet k v ps)"

definition mapFromEntries :: "('k \<times> 'v) list \<Rightarrow> ('k \<times> 'v) list" where
  "mapFromEntries es = fold (\<lambda>e m. mapSet (fst e) (snd e) m) es []"

definition mapGet :: "('k \<times> 'v) list \<Rightarrow> 'k \<Rightarrow> 'v option" where
  "mapGet m k = map_of m k"

definition mapValues :: "('k \<times> 'v) list \<Rightarrow> 'v list" where
  "mapValues m = map snd m"

text \<open>
  Property read \<^verbatim>\<open>value.key\<close> on a value that passed \<^verbatim>\<open>isObject\<close>. Arrays pass that
  test too (\<^verbatim>\<open>typeof [] === 'object'\<close>); none of the keys the engine reads is an array
  property, so every read on an array gives \<^verbatim>\<open>undefined\<close>.
\<close>

definition getProp :: "jsval \<Rightarrow> string \<Rightarrow> jsval" where
  "getProp v k =
     (case v of
        JObj kvs \<Rightarrow> (case mapGet (mapFromEntries kvs) k of Some x \<Rightarrow> x | None \<Rightarrow> JUndef)
      | _ \<Rightarrow> JUndef)"

definition isObject :: "jsval \<Rightarrow> bool" where
  "isObject v = (case v of JObj _ \<Rightarrow> True | JArr _ \<Rightarrow> True | _ \<Rightarrow> False)"

definition toEpoch :: "jsval \<Rightarrow> real option" where
  "toEpoch v = (case v of JNum (Fin x) \<Rightarrow> Some x | _ \<Rightarrow> None)"

section \<open>Strings and numbers as text\<close>

text \<open>
  \<^verbatim>\<open>String.prototype.trim\<close> removes white space at both ends. With one \<^typ>\<open>char\<close> per
  code unit the white space below 256 is TAB, LF, VT, FF, CR, SP and NBSP.
\<close>

definition isWhiteSpace :: "char \<Rightarrow> bool" where
  "isWhiteSpace c = (of_char c \<in> {9, 10, 11, 12, 13, 32, 160 :: nat})"

definition trim :: "string \<Rightarrow> string" where
  "trim s = rev (dropWhile isWhiteSpace (rev (dropWhile isWhiteSpace s)))"

definition startsWith :: "string \<Rightarrow> string \<Rightarrow> bool" where
  "startsWith s p = (take (length p) s = p)"

fun join :: "string \<Rightarrow> string list \<Rightarrow> string" where
  "join sep [] = []"
| "join sep [x] = x"
| "join sep (x # y # ys) = x @ sep @ join sep (y # ys)"

definition digitChar :: "nat \<Rightarrow> char" where
  "digitChar d = ''0123456789'' ! d"

fun showNat :: "nat \<Rightarrow> string" where
  "showNat n = (if n < 10 then [digitChar n] else showNat (n div 10) @ [digitChar (n mod 10)])"

declare showNat.simps [simp del]

definition showInt :: "int \<Rightarrow> string" where
  "showInt i = (if i < 0 then CHR ''-'' # showNat (nat (- i)) else showNat (nat i))"

section \<open>The platform\<close>

text \<open>
  What the engine takes from its host and from \<^verbatim>\<open>./time\<close>, none of it code of
  \<^verbatim>\<open>backup.ts\<close>, is a parameter of the model:
  \<^item> \<open>APP_TIME_ZONE\<close>, the constant imported from \<^verbatim>\<open>./time\<close>;
  \<^item> \<open>Date_now k\<close>, the value of the \<open>k\<close>-th call of \<^verbatim>\<open>Date.now()\<close> (an integer number
    of milliseconds);
  \<^item> \<open>generateTableId k\<close>, the identifier the \<open>k\<close>-th call of \<^verbatim>\<open>generateTableId()\<close>
    returns (a random UUID, or a time stamp and a random suffix);
  \<^item> \<open>Number_toString_other\<close>, \<^verbatim>\<open>Number::toString\<close> on the finite numbers that are not
    safe integers (on a safe integer it is the decimal numeral, see \<open>numberToString\<close>);
  \<^item> \<open>JSON_stringify\<close> and \<open>JSON_parse\<close> (\<open>None\<close>: a \<^verbatim>\<open>SyntaxError\<close>);
  \<^item> \<open>TextEncoder_encode\<close> and \<open>TextDecoder_decode\<close>, UTF-8 between text and bytes;
  \<^item> \<open>btoa\<close> and \<open>atob\<close> (\<open>None\<close>: the input is not base64);
  \<^item> \<open>gzip\<close>, the \<^verbatim>\<open>CompressionStream\<close> on bytes (\<open>None\<close>: the host has none), and
    \<open>gunzip\<close>, the \<^verbatim>\<open>DecompressionStream\<close> (\<open>None\<close>: the host has none, or the stream
    fails).
\<close>

record platform =
  APP_TIME_ZONE :: string
  Date_now :: "nat \<Rightarrow> int"
  generateTableId :: "nat \<Rightarrow> string"
  Number_toString_other :: "real \<Rightarrow> string"
  JSON_stringify :: "jsval \<Rightarrow> string"
  JSON_parse :: "string \<Rightarrow> jsval option"
  TextEncoder_encode :: "string \<Rightarrow> string"
  TextDecoder_decode :: "string \<Rightarrow> string"
  btoa :: "string \<Rightarrow> string"
  atob :: "string \<Rightarrow> string option"
  gzip :: "string \<Rightarrow> string option"
  gunzip :: "string \<Rightarrow> string option"

definition isSafeInteger :: "real \<Rightarrow> bool" where
  "isSafeInteger x = (x = real_of_int \<lfloor>x\<rfloor> \<and> \<bar>x\<bar> \<le> 2 ^ 53 - 1)"

definition numberToString :: "platform \<Rightarrow> real \<Rightarrow> string" where
  "numberToString P x =
     (if isSafeInteger x then showInt \<lfloor>x\<rfloor> else Number_toString_other P x)"

text \<open>
  The conversion \<^verbatim>\<open>String(v)\<close> of a parsed value, where \<open>None\<close> is the \<^verbatim>\<open>TypeError\<close> it
  throws. An object is converted by its \<^verbatim>\<open>toString\<close> method: a parsed object that has a
  property of its own named \<^verbatim>\<open>toString\<close> hides the inherited method behind a value that
  cannot be called, and the inherited \<^verbatim>\<open>valueOf\<close> returns the object, so the conversion
  throws; any other parsed object gives \<^verbatim>\<open>[object Object]\<close>. An array is converted by
  \<^verbatim>\<open>join\<close>: its elements are converted in turn, \<^verbatim>\<open>undefined\<close> and \<^verbatim>\<open>null\<close> to the empty
  text, and joined with commas.
\<close>

fun jsnumToString :: "platform \<Rightarrow> jsnum \<Rightarrow> string" where
  "jsnumToString P (Fin x) = numberToString P x"
| "jsnumToString P NaN = ''NaN''"
| "jsnumToString P PosInf = ''Infinity''"
| "jsnumToString P NegInf = ''-Infinity''"

fun jsString :: "platform \<Rightarrow> jsval \<Rightarrow> string option"
  and jsStringElements :: "platform \<Rightarrow> jsval list \<Rightarrow> string list option" where
  "jsString P JUndef = Some ''undefined''"
| "jsString P JNull = Some ''null''"
| "jsString P (JBool b) = Some (if b then ''true'' else ''false'')"
| "jsString P (JNum n) = Some (jsnumToString P n)"
| "jsString P (JStr s) = Some s"
| "jsString P (JArr xs) = map_option (join '','') (jsStringElements P xs)"
| "jsString P (JObj kvs) =
     (if ''toString'' \<in> fst ` set kvs then None else Some ''[object Object]'')"
| "jsStringElements P [] = Some []"
| "jsStringElements P (x # xs) =
     (case (case x of JUndef \<Rightarrow> Some [] | JNull \<Rightarrow> Some [] | _ \<Rightarrow> jsString P x) of
        None \<Rightarrow> None
      | Some s \<Rightarrow>
          (case jsStringElements P xs of
             None \<Rightarrow> None
           | Some ss \<Rightarrow> Some (s # ss)))"

section \<open>The data model\<close>

text \<open>
  The records of \<^verbatim>\<open>../types\<close> and of \<^verbatim>\<open>backup.ts\<close>. A numeric field is a finite number
  and an optional time stamp is a finite number or absent: a property that is missing
  and a property that holds \<^verbatim>\<open>undefined\<close> are the same record, and NaN and the infinities,
  which \<^verbatim>\<open>toEpoch\<close> never lets into a table, are outside the records. The fields \<open>id\<close>
  of a table and \<open>id\<close>, \<open>bossName\<close> and \<open>channel\<close> of a conflict are named \<open>table_id\<close>,
  \<open>conflict_id\<close>, \<open>conflict_bossName\<close> and \<open>conflict_channel\<close>.
\<close>

record ChannelTimer =
  channel :: real
  killedAt :: "real option"
  earliestRespawnAt :: "real option"
  latestRespawnAt :: "real option"

record BossTable =
  table_id :: string
  bossName :: string
  channelsCount :: real
  channels :: "ChannelTimer list"
  createdAt :: real

record ExportPayload =
  version :: real
  storageVersion :: string
  exportedAt :: real
  timezone :: string
  tables :: "BossTable list"

record ImportResult =
  payload :: ExportPayload
  warnings :: "string list"

datatype ConflictChoice = Mine | Theirs

record MergeConflict =
  conflict_id :: string
  conflict_bossName :: string
  tableId :: string
  conflict_channel :: real
  mine :: ChannelTimer
  theirs :: ChannelTimer

record MergePreview =
  mergedTables :: "BossTable list"
  conflicts :: "MergeConflict list"
  defaultChoices :: "string \<rightharpoonup> ConflictChoice"

definition BACKUP_PREFIX :: string where
  "BACKUP_PREFIX = ''BOSSTIMER_V1:''"

definition BACKUP_PREFIX_GZ :: string where
  "BACKUP_PREFIX_GZ = ''BOSSTIMER_V2GZ:''"

definition BACKUP_VERSION :: real where
  "BACKUP_VERSION = 1"

definition STORAGE_VERSION :: string where
  "STORAGE_VERSION = ''boss-timer/v1''"

definition MIN_CHANNELS :: real where
  "MIN_CHANNELS = 1"

definition MAX_CHANNELS :: real where
  "MAX_CHANNELS = 50"

definition clampChannelsCount :: "real \<Rightarrow> real" where
  "clampChannelsCount v = max MIN_CHANNELS (min MAX_CHANNELS (real_of_int \<lfloor>v\<rfloor>))"

definition emptyChannel :: "real \<Rightarrow> ChannelTimer" where
  "emptyChannel n =
     \<lparr>channel = n, killedAt = None, earliestRespawnAt = None, latestRespawnAt = None\<rparr>"

definition hasTimer :: "ChannelTimer \<Rightarrow> bool" where
  "hasTimer c = (killedAt c \<noteq> None \<or> earliestRespawnAt c \<noteq> None \<or> latestRespawnAt c \<noteq> None)"

definition timerPart :: "platform \<Rightarrow> real option \<Rightarrow> string" where
  "timerPart P t = (case t of None \<Rightarrow> [] | Some x \<Rightarrow> numberToString P x)"

definition timerSignature :: "platform \<Rightarrow> ChannelTimer \<Rightarrow> string" where
  "timerSignature P c =
     join ''|'' [timerPart P (killedAt c), timerPart P (earliestRespawnAt c),
                 timerPart P (latestRespawnAt c)]"

definition cloneChannel :: "ChannelTimer \<Rightarrow> ChannelTimer" where
  "cloneChannel c =
     \<lparr>channel = channel c, killedAt = killedAt c,
      earliestRespawnAt = earliestRespawnAt c, latestRespawnAt = latestRespawnAt c\<rparr>"

definition cloneTable :: "BossTable \<Rightarrow> BossTable" where
  "cloneTable t = t\<lparr>channels := map cloneChannel (channels t)\<rparr>"

section \<open>The normalizer\<close>

text \<open>
  \<^verbatim>\<open>normalizeTable\<close> pushes onto the caller's \<^verbatim>\<open>warnings\<close> array and reads the clock.
  Both are state: \<open>pushed\<close> is the array, \<open>clock\<close> counts the calls of
  \<^verbatim>\<open>Date.now()\<close> made so far.
\<close>

record istate =
  pushed :: "string list"
  clock :: nat

definition push :: "string \<Rightarrow> istate \<Rightarrow> istate" where
  "push w s = s\<lparr>pushed := pushed s @ [w]\<rparr>"

definition dateNow :: "platform \<Rightarrow> istate \<Rightarrow> int \<times> istate" where
  "dateNow P s = (Date_now P (clock s), s\<lparr>clock := Suc (clock s)\<rparr>)"

definition dquote :: string where
  "dquote = [CHR 0x22]"

definition normalizeChannel :: "jsval \<Rightarrow> ChannelTimer option" where
  "normalizeChannel c =
     (if \<not> isObject c then None
      else case getProp c ''channel'' of
        JNum (Fin rawChannel) \<Rightarrow>
          Some \<lparr>channel = max 1 (real_of_int \<lfloor>rawChannel\<rfloor>),
                killedAt = toEpoch (getProp c ''killedAt''),
                earliestRespawnAt = toEpoch (getProp c ''earliestRespawnAt''),
                latestRespawnAt = toEpoch (getProp c ''latestRespawnAt'')\<rparr>
      | _ \<Rightarrow> None)"

text \<open>The locals of \<^verbatim>\<open>normalizeTable\<close>, each as a function of the raw table.\<close>

definition parsedChannels :: "jsval \<Rightarrow> ChannelTimer list" where
  "parsedChannels table =
     (case getProp table ''channels'' of
        JArr cs \<Rightarrow> List.map_filter normalizeChannel cs
      | _ \<Rightarrow> [])"

definition deduped :: "jsval \<Rightarrow> (real \<times> ChannelTimer) list" where
  "deduped table = fold (\<lambda>c m. mapSet (channel c) c m) (parsedChannels table) []"

definition uniqueChannels :: "jsval \<Rightarrow> ChannelTimer list" where
  "uniqueChannels table = sort_key channel (mapValues (deduped table))"

definition maxChannel :: "jsval \<Rightarrow> real" where
  "maxChannel table =
     (if length (uniqueChannels table) = 0 then 0 else channel (last (uniqueChannels table)))"

definition requestedCount :: "jsval \<Rightarrow> real" where
  "requestedCount table =
     (case getProp table ''channelsCount'' of
        JNum (Fin cc) \<Rightarrow> real_of_int \<lfloor>cc\<rfloor>
      | _ \<Rightarrow> if maxChannel table > 0 then maxChannel table else MIN_CHANNELS)"

definition finalChannelsCount :: "jsval \<Rightarrow> real" where
  "finalChannelsCount table =
     clampChannelsCount (max (requestedCount table) (maxChannel table))"

definition rebuiltChannels :: "jsval \<Rightarrow> ChannelTimer list" where
  "rebuiltChannels table =
     (let byChannel = mapFromEntries (map (\<lambda>c. (channel c, c)) (uniqueChannels table))
      in map (\<lambda>idx. let channelNumber = real idx + 1
                     in case mapGet byChannel channelNumber of
                          Some c \<Rightarrow> c
                        | None \<Rightarrow> emptyChannel channelNumber)
           [0 ..< nat \<lfloor>finalChannelsCount table\<rfloor>])"

definition clampWarning :: "platform \<Rightarrow> string \<Rightarrow> real \<Rightarrow> string" where
  "clampWarning P name clampedOriginal =
     ''Table '' @ dquote @ name @ dquote @ '': channelsCount was clamped to ''
       @ numberToString P clampedOriginal @ ''.''"

definition rebuiltWarning :: "platform \<Rightarrow> string \<Rightarrow> nat \<Rightarrow> real \<Rightarrow> string" where
  "rebuiltWarning P name before after =
     ''Table '' @ dquote @ name @ dquote @ '': channels rebuilt ('' @ showNat before @ '' -> ''
       @ numberToString P after @ '') to match count.''"

definition warnClamped :: "platform \<Rightarrow> jsval \<Rightarrow> string \<Rightarrow> istate \<Rightarrow> istate" where
  "warnClamped P table name s =
     (case getProp table ''channelsCount'' of
        JNum (Fin cc) \<Rightarrow>
          (let clampedOriginal = clampChannelsCount cc
           in if clampedOriginal \<noteq> cc then push (clampWarning P name clampedOriginal) s else s)
      | _ \<Rightarrow> s)"

definition warnRebuilt :: "platform \<Rightarrow> jsval \<Rightarrow> string \<Rightarrow> istate \<Rightarrow> istate" where
  "warnRebuilt P table name s =
     (if finalChannelsCount table \<noteq> real (length (uniqueChannels table))
      then push (rebuiltWarning P name (length (uniqueChannels table)) (finalChannelsCount table)) s
      else s)"

definition assignId :: "platform \<Rightarrow> jsval \<Rightarrow> nat \<Rightarrow> istate \<Rightarrow> string \<times> istate" where
  "assignId P table index s =
     (case getProp table ''id'' of
        JStr i \<Rightarrow>
          if length i > 0 then (i, s)
          else (let (now, s') = dateNow P s
                in (''imported-'' @ showInt now @ ''-'' @ showNat index, s'))
      | _ \<Rightarrow> (let (now, s') = dateNow P s
              in (''imported-'' @ showInt now @ ''-'' @ showNat index, s')))"

definition assignCreatedAt :: "platform \<Rightarrow> jsval \<Rightarrow> istate \<Rightarrow> real \<times> istate" where
  "assignCreatedAt P table s =
     (case toEpoch (getProp table ''createdAt'') of
        Some t \<Rightarrow> (t, s)
      | None \<Rightarrow> (let (now, s') = dateNow P s in (real_of_int now, s')))"

definition normalizeTable ::
  "platform \<Rightarrow> jsval \<Rightarrow> nat \<Rightarrow> istate \<Rightarrow> BossTable option \<times> istate" where
  "normalizeTable P table index s =
     (if \<not> isObject table
      then (None, push (''Skipped table #'' @ showNat (index + 1) @ '': not an object.'') s)
      else case getProp table ''bossName'' of
        JStr name \<Rightarrow>
          if length (trim name) = 0
          then (None, push (''Skipped table #'' @ showNat (index + 1) @ '': missing bossName.'') s)
          else (let s1 = warnClamped P table name s;
                    s2 = warnRebuilt P table name s1;
                    (i, s3) = assignId P table index s2;
                    (t, s4) = assignCreatedAt P table s3
                in (Some \<lparr>table_id = i, bossName = name,
                           channelsCount = finalChannelsCount table,
                           channels = rebuiltChannels table,
                           createdAt = t\<rparr>, s4))
      | _ \<Rightarrow> (None, push (''Skipped table #'' @ showNat (index + 1) @ '': missing bossName.'') s))"

section \<open>The codec\<close>

text \<open>
  The two messages a rejected import carries, \<^verbatim>\<open>Invalid backup string\<close> and
  \<^verbatim>\<open>Unsupported backup version\<close>, and the \<^verbatim>\<open>TypeError\<close> that \<^verbatim>\<open>String(parsed.timezone)\<close>
  throws when the value cannot be converted.
\<close>

datatype error = InvalidFormat | UnsupportedVersion | TypeError

text \<open>
  What \<^verbatim>\<open>JSON.stringify\<close> serialises: a property whose value is \<^verbatim>\<open>undefined\<close> is left
  out. The numeric fields of the records are finite, so none is written as \<^verbatim>\<open>null\<close>.
\<close>

definition optionalNumber :: "string \<Rightarrow> real option \<Rightarrow> (string \<times> jsval) list" where
  "optionalNumber k t = (case t of None \<Rightarrow> [] | Some x \<Rightarrow> [(k, JNum (Fin x))])"

definition channelToJson :: "ChannelTimer \<Rightarrow> jsval" where
  "channelToJson c =
     JObj ([(''channel'', JNum (Fin (channel c)))]
           @ optionalNumber ''killedAt'' (killedAt c)
           @ optionalNumber ''earliestRespawnAt'' (earliestRespawnAt c)
           @ optionalNumber ''latestRespawnAt'' (latestRespawnAt c))"

definition tableToJson :: "BossTable \<Rightarrow> jsval" where
  "tableToJson t =
     JObj [(''id'', JStr (table_id t)),
           (''bossName'', JStr (bossName t)),
           (''channelsCount'', JNum (Fin (channelsCount t))),
           (''channels'', JArr (map channelToJson (channels t))),
           (''createdAt'', JNum (Fin (createdAt t)))]"

definition payloadToJson :: "ExportPayload \<Rightarrow> jsval" where
  "payloadToJson p =
     JObj [(''version'', JNum (Fin (version p))),
           (''storageVersion'', JStr (storageVersion p)),
           (''exportedAt'', JNum (Fin (exportedAt p))),
           (''timezone'', JStr (timezone p)),
           (''tables'', JArr (map tableToJson (tables p)))]"

text \<open>
  The table object itself, as \<^verbatim>\<open>normalizeTable\<close> sees it when it is handed a
  \<^verbatim>\<open>BossTable\<close>: an unset time stamp is a property holding \<^verbatim>\<open>undefined\<close>.
\<close>

definition optionalValue :: "real option \<Rightarrow> jsval" where
  "optionalValue t = (case t of None \<Rightarrow> JUndef | Some x \<Rightarrow> JNum (Fin x))"

definition channelValue :: "ChannelTimer \<Rightarrow> jsval" where
  "channelValue c =
     JObj [(''channel'', JNum (Fin (channel c))),
           (''killedAt'', optionalValue (killedAt c)),
           (''earliestRespawnAt'', optionalValue (earliestRespawnAt c)),
           (''latestRespawnAt'', optionalValue (latestRespawnAt c))]"

definition tableValue :: "BossTable \<Rightarrow> jsval" where
  "tableValue t =
     JObj [(''id'', JStr (table_id t)),
           (''bossName'', JStr (bossName t)),
           (''channelsCount'', JNum (Fin (channelsCount t))),
           (''channels'', JArr (map channelValue (channels t))),
           (''createdAt'', JNum (Fin (createdAt t)))]"

text \<open>
  \<^verbatim>\<open>bytesToBase64\<close> builds the binary string chunk by chunk; \<^verbatim>\<open>base64ToBytes\<close> copies
  the char codes of the decoded binary string into a byte array. Bytes and the code
  units of a binary string are both \<^typ>\<open>char\<close>.
\<close>

definition chunkSize :: nat where
  "chunkSize = 0x8000"

function binaryChunks :: "string \<Rightarrow> nat \<Rightarrow> string \<Rightarrow> string" where
  "binaryChunks bytes i binary =
     (if i < length bytes
      then binaryChunks bytes (i + chunkSize) (binary @ take chunkSize (drop i bytes))
      else binary)"
  by pat_completeness auto
termination
  by (relation "measure (\<lambda>(bytes, i, binary). length bytes - i)") (auto simp: chunkSize_def)

declare binaryChunks.simps [simp del]

definition bytesToBase64 :: "platform \<Rightarrow> string \<Rightarrow> string" where
  "bytesToBase64 P bytes = btoa P (binaryChunks bytes 0 [])"

definition base64ToBytes :: "platform \<Rightarrow> string \<Rightarrow> string option" where
  "base64ToBytes P base64 =
     (case atob P base64 of
        None \<Rightarrow> None
      | Some binary \<Rightarrow> Some (map (\<lambda>c. char_of (of_char c :: nat)) binary))"

definition encodeBase64 :: "platform \<Rightarrow> string \<Rightarrow> string" where
  "encodeBase64 P txt = bytesToBase64 P (TextEncoder_encode P txt)"

definition decodeBase64 :: "platform \<Rightarrow> string \<Rightarrow> string option" where
  "decodeBase64 P base64 =
     (case base64ToBytes P base64 of
        None \<Rightarrow> None
      | Some bytes \<Rightarrow> Some (TextDecoder_decode P bytes))"

definition gzipText :: "platform \<Rightarrow> string \<Rightarrow> string option" where
  "gzipText P txt = gzip P (TextEncoder_encode P txt)"

definition gunzipBytes :: "platform \<Rightarrow> string \<Rightarrow> string option" where
  "gunzipBytes P bytes =
     (case gunzip P bytes of
        None \<Rightarrow> None
      | Some raw \<Rightarrow> Some (TextDecoder_decode P raw))"

text \<open>\<^verbatim>\<open>exportState\<close>; \<open>k\<close> is the number of clock reads made before the call.\<close>

definition exportPayload :: "platform \<Rightarrow> BossTable list \<Rightarrow> nat \<Rightarrow> ExportPayload" where
  "exportPayload P ts k =
     \<lparr>version = BACKUP_VERSION, storageVersion = STORAGE_VERSION,
      exportedAt = real_of_int (Date_now P k), timezone = APP_TIME_ZONE P, tables = ts\<rparr>"

definition exportState :: "platform \<Rightarrow> BossTable list \<Rightarrow> nat \<Rightarrow> string" where
  "exportState P ts k =
     (let json = JSON_stringify P (payloadToJson (exportPayload P ts k))
      in case gzipText P json of
           Some compressed \<Rightarrow>
             if length compressed > 0 then BACKUP_PREFIX_GZ @ bytesToBase64 P compressed
             else BACKUP_PREFIX @ encodeBase64 P json
         | None \<Rightarrow> BACKUP_PREFIX @ encodeBase64 P json)"

text \<open>
  \<^verbatim>\<open>importState\<close> in three parts: the text that is handed to \<^verbatim>\<open>JSON.parse\<close> (lines
  252 to 273), the parsed envelope once it has passed \<^verbatim>\<open>isObject\<close> (lines 275 to 284),
  and the checks and the reconstruction of the payload (lines 286 to 314).
\<close>

definition decodeText :: "platform \<Rightarrow> string \<Rightarrow> error + string" where
  "decodeText P input =
     (let trimmed = trim input
      in if length trimmed = 0 then Inl InvalidFormat
         else if startsWith trimmed BACKUP_PREFIX_GZ then
           (case base64ToBytes P (drop (length BACKUP_PREFIX_GZ) trimmed) of
              None \<Rightarrow> Inl InvalidFormat
            | Some bytes \<Rightarrow>
                (case gunzipBytes P bytes of
                   None \<Rightarrow> Inl InvalidFormat
                 | Some jsonText \<Rightarrow> Inr jsonText))
         else if startsWith trimmed BACKUP_PREFIX then
           (case decodeBase64 P (drop (length BACKUP_PREFIX) trimmed) of
              None \<Rightarrow> Inl InvalidFormat
            | Some jsonText \<Rightarrow> Inr jsonText)
         else Inr trimmed)"

definition parseEnvelope :: "platform \<Rightarrow> string \<Rightarrow> error + jsval" where
  "parseEnvelope P input =
     (case decodeText P input of
        Inl e \<Rightarrow> Inl e
      | Inr jsonText \<Rightarrow>
          (case JSON_parse P jsonText of
             None \<Rightarrow> Inl InvalidFormat
           | Some parsed \<Rightarrow> if \<not> isObject parsed then Inl InvalidFormat else Inr parsed))"

fun normalizeTables ::
  "platform \<Rightarrow> jsval list \<Rightarrow> nat \<Rightarrow> istate \<Rightarrow> BossTable list \<times> istate" where
  "normalizeTables P [] index s = ([], s)"
| "normalizeTables P (table # rest) index s =
     (let (r, s1) = normalizeTable P table index s;
          (rs, s2) = normalizeTables P rest (Suc index) s1
      in (case r of None \<Rightarrow> rs | Some t \<Rightarrow> t # rs, s2))"

definition timezoneWarning :: "platform \<Rightarrow> string \<Rightarrow> string" where
  "timezoneWarning P tz =
     ''Backup timezone is '' @ dquote @ tz @ dquote @ '', your timezone is '' @ dquote
       @ APP_TIME_ZONE P @ dquote @ ''.''"

definition importParsed :: "platform \<Rightarrow> jsval \<Rightarrow> nat \<Rightarrow> error + ImportResult" where
  "importParsed P parsed k =
     (if getProp parsed ''version'' \<noteq> JNum (Fin BACKUP_VERSION) then Inl UnsupportedVersion
      else case getProp parsed ''tables'' of
        JArr rawTables \<Rightarrow>
          (case (if getProp parsed ''timezone'' \<noteq> JStr (APP_TIME_ZONE P)
                 then map_option (\<lambda>tz. [timezoneWarning P tz])
                        (jsString P (getProp parsed ''timezone''))
                 else Some []) of
             None \<Rightarrow> Inl TypeError
           | Some ws \<Rightarrow>
               (let (ts, s1) = normalizeTables P rawTables 0 \<lparr>pushed = ws, clock = k\<rparr>;
                    (stamp, s2) = (case toEpoch (getProp parsed ''exportedAt'') of
                                  Some t \<Rightarrow> (t, s1)
                                | None \<Rightarrow> (let (now, s') = dateNow P s1
                                           in (real_of_int now, s')))
                in Inr \<lparr>payload =
                          \<lparr>version = BACKUP_VERSION,
                           storageVersion =
                             (case getProp parsed ''storageVersion'' of
                                JStr sv \<Rightarrow> if length sv > 0 then sv else STORAGE_VERSION
                              | _ \<Rightarrow> STORAGE_VERSION),
                           exportedAt = stamp,
                           timezone =
                             (case getProp parsed ''timezone'' of
                                JStr tz \<Rightarrow> tz
                              | _ \<Rightarrow> APP_TIME_ZONE P),
                           tables = ts\<rparr>,
                        warnings = pushed s2\<rparr>))
      | _ \<Rightarrow> Inl InvalidFormat)"

definition importState :: "platform \<Rightarrow> string \<Rightarrow> nat \<Rightarrow> error + ImportResult" where
  "importState P input k =
     (case parseEnvelope P input of
        Inl e \<Rightarrow> Inl e
      | Inr parsed \<Rightarrow> importParsed P parsed k)"

section \<open>The merge engine\<close>

fun findIndex :: "('a \<Rightarrow> bool) \<Rightarrow> 'a list \<Rightarrow> nat option" where
  "findIndex p [] = None"
| "findIndex p (x # xs) = (if p x then Some 0 else map_option Suc (findIndex p xs))"

text \<open>
  \<^verbatim>\<open>ensureUniqueId\<close>: \<open>existingIds\<close> is the Set, \<open>k\<close> the number of identifiers generated
  so far. The \<^verbatim>\<open>while\<close> loop draws identifiers until one is unused; it need not end,
  so the result is an option.
\<close>

partial_function (option) nextFreshId ::
  "platform \<Rightarrow> string list \<Rightarrow> nat \<Rightarrow> (string \<times> nat) option" where
  "nextFreshId P existingIds k =
     (if generateTableId P k \<in> set existingIds
      then nextFreshId P existingIds (Suc k)
      else Some (generateTableId P k, Suc k))"

definition ensureUniqueId ::
  "platform \<Rightarrow> string list \<Rightarrow> nat \<Rightarrow> string \<Rightarrow> (string \<times> string list \<times> nat) option" where
  "ensureUniqueId P existingIds k preferredId =
     (if preferredId \<notin> set existingIds
      then Some (preferredId, existingIds @ [preferredId], k)
      else case nextFreshId P existingIds k of
             None \<Rightarrow> None
           | Some (nextId, k') \<Rightarrow> Some (nextId, existingIds @ [nextId], k'))"

text \<open>
  One round of the inner loop of \<^verbatim>\<open>buildMergePreview\<close> (lines 341 to 379), on the
  arrays \<open>nextChannels\<close> and \<open>conflicts\<close> and the record \<open>defaultChoices\<close>.
\<close>

text \<open>
  \<^verbatim>\<open>new Map(channels.map((channel) => [channel.channel, channel]))\<close> and the read
  \<^verbatim>\<open>byChannel.get(channelNumber) ?? { channel: channelNumber }\<close>.
\<close>

definition byChannelOf :: "ChannelTimer list \<Rightarrow> (real \<times> ChannelTimer) list" where
  "byChannelOf cs = mapFromEntries (map (\<lambda>c. (channel c, c)) cs)"

definition channelOrEmpty :: "(real \<times> ChannelTimer) list \<Rightarrow> nat \<Rightarrow> ChannelTimer" where
  "channelOrEmpty byChannel channelNumber =
     (case mapGet byChannel (real channelNumber) of
        Some c \<Rightarrow> c
      | None \<Rightarrow> emptyChannel (real channelNumber))"

type_synonym channelAcc =
  "ChannelTimer list \<times> MergeConflict list \<times> (string \<rightharpoonup> ConflictChoice)"

definition mergeChannel ::
  "platform \<Rightarrow> BossTable \<Rightarrow> (real \<times> ChannelTimer) list \<Rightarrow> (real \<times> ChannelTimer) list
     \<Rightarrow> nat \<Rightarrow> channelAcc \<Rightarrow> channelAcc" where
  "mergeChannel P existing mineByChannel theirsByChannel channelNumber acc =
     (case acc of (nextChannels, cs, dc) \<Rightarrow>
       (let m = channelOrEmpty mineByChannel channelNumber;
            t = channelOrEmpty theirsByChannel channelNumber;
            mineHas = hasTimer m;
            theirsHas = hasTimer t
        in if \<not> mineHas \<and> theirsHas then (nextChannels @ [cloneChannel t], cs, dc)
           else if mineHas \<and> \<not> theirsHas then (nextChannels @ [cloneChannel m], cs, dc)
           else if \<not> mineHas \<and> \<not> theirsHas
             then (nextChannels @ [emptyChannel (real channelNumber)], cs, dc)
           else if timerSignature P m = timerSignature P t
             then (nextChannels @ [cloneChannel m], cs, dc)
           else (let conflictId = table_id existing @ '':'' @ showNat channelNumber @ '':''
                                    @ showNat (length cs)
                 in (nextChannels @ [cloneChannel m],
                     cs @ [\<lparr>conflict_id = conflictId,
                            conflict_bossName = bossName existing,
                            tableId = table_id existing,
                            conflict_channel = real channelNumber,
                            mine = cloneChannel m,
                            theirs = cloneChannel t\<rparr>],
                     dc(conflictId \<mapsto> Mine)))))"

text \<open>
  The state of the outer loop: the three parts of the preview, the Set \<open>usedIds\<close> and the
  number of identifiers generated so far.
\<close>

record mstate =
  m_tables :: "BossTable list"
  m_conflicts :: "MergeConflict list"
  m_choices :: "string \<rightharpoonup> ConflictChoice"
  usedIds :: "string list"
  generated :: nat

definition mergeInto :: "platform \<Rightarrow> nat \<Rightarrow> BossTable \<Rightarrow> mstate \<Rightarrow> mstate" where
  "mergeInto P targetIndex importedTable st =
     (let existing = m_tables st ! targetIndex;
          mergedCount = clampChannelsCount (max (channelsCount existing) (channelsCount importedTable));
          mineByChannel = byChannelOf (channels existing);
          theirsByChannel = byChannelOf (channels importedTable);
          (nextChannels, cs, dc) =
             fold (mergeChannel P existing mineByChannel theirsByChannel)
                  [1 ..< Suc (nat \<lfloor>mergedCount\<rfloor>)]
                  ([], m_conflicts st, m_choices st)
      in st\<lparr>m_tables := (m_tables st)
                [targetIndex := existing\<lparr>channelsCount := mergedCount, channels := nextChannels\<rparr>],
             m_conflicts := cs,
             m_choices := dc\<rparr>)"

definition mergeTable :: "platform \<Rightarrow> BossTable \<Rightarrow> mstate \<Rightarrow> mstate option" where
  "mergeTable P importedTable st =
     (case findIndex (\<lambda>t. bossName t = bossName importedTable) (m_tables st) of
        None \<Rightarrow>
          (case ensureUniqueId P (usedIds st) (generated st) (table_id importedTable) of
             None \<Rightarrow> None
           | Some (uniqueId, used, k) \<Rightarrow>
               Some (st\<lparr>m_tables := m_tables st @ [importedTable\<lparr>table_id := uniqueId\<rparr>],
                        usedIds := used, generated := k\<rparr>))
      | Some targetIndex \<Rightarrow> Some (mergeInto P targetIndex importedTable st))"

fun mergeAll :: "platform \<Rightarrow> BossTable list \<Rightarrow> mstate \<Rightarrow> mstate option" where
  "mergeAll P [] st = Some st"
| "mergeAll P (importedTable # rest) st =
     (case mergeTable P importedTable st of
        None \<Rightarrow> None
      | Some st' \<Rightarrow> mergeAll P rest st')"

definition buildMergePreview ::
  "platform \<Rightarrow> BossTable list \<Rightarrow> BossTable list \<Rightarrow> MergePreview option" where
  "buildMergePreview P existingTables importedTables =
     (let merged0 = map cloneTable existingTables
      in case mergeAll P (map cloneTable importedTables)
                \<lparr>m_tables = merged0, m_conflicts = [], m_choices = Map.empty,
                 usedIds = map table_id merged0, generated = 0\<rparr> of
           None \<Rightarrow> None
         | Some st \<Rightarrow>
             Some \<lparr>mergedTables = m_tables st, conflicts = m_conflicts st,
                   defaultChoices = m_choices st\<rparr>)"

section \<open>The conflict resolver\<close>

definition applyConflict ::
  "(string \<rightharpoonup> ConflictChoice) \<Rightarrow> (string \<times> nat) list \<Rightarrow> MergeConflict
     \<Rightarrow> BossTable list \<Rightarrow> BossTable list" where
  "applyConflict choices tableIndexById conflict result =
     (let selected = (case choices (conflict_id conflict) of Some c \<Rightarrow> c | None \<Rightarrow> Mine)
      in case mapGet tableIndexById (tableId conflict) of
           None \<Rightarrow> result
         | Some idx \<Rightarrow>
             (let table = result ! idx
              in case findIndex (\<lambda>c. channel c = conflict_channel conflict) (channels table) of
                   None \<Rightarrow> result
                 | Some channelIdx \<Rightarrow>
                     result[idx := table\<lparr>channels := (channels table)
                       [channelIdx := (if selected = Theirs then cloneChannel (theirs conflict)
                                       else cloneChannel (mine conflict))]\<rparr>]))"

definition applyMergeChoices ::
  "MergePreview \<Rightarrow> (string \<rightharpoonup> ConflictChoice) \<Rightarrow> BossTable list" where
  "applyMergeChoices preview choices =
     (let result = map cloneTable (mergedTables preview);
          tableIndexById = mapFromEntries (map (\<lambda>(index, table). (table_id table, index))
                                             (enumerate 0 result))
      in fold (applyConflict choices tableIndexById) (conflicts preview) result)"

section \<open>The predicates of the claims\<close>

text \<open>
  The raw tables \<^verbatim>\<open>normalizeTable\<close> accepts: a value that passes \<^verbatim>\<open>isObject\<close> and whose
  \<^verbatim>\<open>bossName\<close> is a string that is not blank after trimming.
\<close>

definition accepts :: "jsval \<Rightarrow> bool" where
  "accepts table =
     (isObject table \<and>
      (case getProp table ''bossName'' of JStr name \<Rightarrow> length (trim name) \<noteq> 0 | _ \<Rightarrow> False))"

text \<open>
  The invariant of a table: as many channels as \<open>channelsCount\<close> says, numbered
  \<open>1, 2, \<dots>, channelsCount\<close> in this order, and a count between 1 and 50.
\<close>

definition tableInvariant :: "BossTable \<Rightarrow> bool" where
  "tableInvariant t =
     (real (length (channels t)) = channelsCount t \<and>
      map channel (channels t) = map real [1 ..< Suc (length (channels t))] \<and>
      1 \<le> channelsCount t \<and> channelsCount t \<le> 50)"

text \<open>
  A well-formed table has, beside the invariant, an identifier and a boss name that are
  not empty. The type of the record already makes \<open>createdAt\<close> and every time stamp
  that is set a finite number.
\<close>

definition wellFormed :: "BossTable \<Rightarrow> bool" where
  "wellFormed t = (length (table_id t) > 0 \<and> length (bossName t) > 0 \<and> tableInvariant t)"

text \<open>
  A conflict is consistent when both of its sides carry the channel number the conflict
  is recorded for.
\<close>

definition conflictConsistent :: "MergeConflict \<Rightarrow> bool" where
  "conflictConsistent c =
     (channel (mine c) = conflict_channel c \<and> channel (theirs c) = conflict_channel c)"

text \<open>
  The warnings of the normalizer start with \<^verbatim>\<open>Skipped table #\<close> or with \<^verbatim>\<open>Table\<close>; the
  warning about the time zone starts with \<^verbatim>\<open>Backup timezone is\<close>.
\<close>

definition tableWarning :: "string \<Rightarrow> bool" where
  "tableWarning w = (\<not> startsWith w ''Backup timezone is'')"

text \<open>
  What the round trip asks of the host for the payload value \<open>v\<close>: parsing undoes
  serialising, decoding undoes encoding, \<^verbatim>\<open>atob\<close> undoes \<^verbatim>\<open>btoa\<close> on the bytes that are
  written, the base64 text does not end in white space, and, when the host compresses,
  decompressing undoes compressing.
\<close>

definition base64RoundTrips :: "platform \<Rightarrow> string \<Rightarrow> bool" where
  "base64RoundTrips P bytes =
     (atob P (btoa P bytes) = Some bytes \<and>
      (btoa P bytes = [] \<or> \<not> isWhiteSpace (last (btoa P bytes))))"

definition hostRoundTrips :: "platform \<Rightarrow> jsval \<Rightarrow> bool" where
  "hostRoundTrips P v =
     (let json = JSON_stringify P v; bytes = TextEncoder_encode P json
      in JSON_parse P json = Some v \<and>
         TextDecoder_decode P bytes = json \<and>
         (case gzip P bytes of
            Some compressed \<Rightarrow>
              if length compressed > 0
              then base64RoundTrips P compressed \<and> gunzip P compressed = Some bytes
              else base64RoundTrips P bytes
          | None \<Rightarrow> base64RoundTrips P bytes))"

section \<open>Sample inputs\<close>

text \<open>
  A host for the concrete runs below: its clock starts at 1700000000000 and advances by
  one millisecond a call, and the \<open>k\<close>-th identifier it generates is \<open>generated-\<close>
  followed by \<open>k\<close> times the letter \<open>x\<close>. It has no compression stream, its text encoding and its
  base64 are the identity, and it parses the texts listed with it.
\<close>

definition demoPlatform :: "(jsval \<Rightarrow> string) \<Rightarrow> (string \<Rightarrow> jsval option) \<Rightarrow> platform" where
  "demoPlatform stringify parse =
     \<lparr>APP_TIME_ZONE = ''Asia/Seoul'',
      Date_now = (\<lambda>k. 1700000000000 + int k),
      generateTableId = (\<lambda>k. ''generated-'' @ replicate k CHR ''x''),
      Number_toString_other = (\<lambda>x. ''?''),
      JSON_stringify = stringify,
      JSON_parse = parse,
      TextEncoder_encode = (\<lambda>s. s),
      TextDecoder_decode = (\<lambda>s. s),
      btoa = (\<lambda>s. s),
      atob = (\<lambda>s. Some s),
      gzip = (\<lambda>s. None),
      gunzip = (\<lambda>s. None)\<rparr>"

definition plainHost :: platform where
  "plainHost = demoPlatform (\<lambda>v. []) (\<lambda>s. None)"

definition freshState :: istate where
  "freshState = \<lparr>pushed = [], clock = 0\<rparr>"

text \<open>
  A raw table whose channels array holds channel 2 twice and channel 51 once, and no
  \<^verbatim>\<open>channelsCount\<close>.
\<close>

definition rawBeyondLimit :: jsval where
  "rawBeyondLimit =
     JObj [(''bossName'', JStr ''Balrog''),
           (''channels'', JArr
              [JObj [(''channel'', JNum (Fin 2)), (''killedAt'', JNum (Fin 100))],
               JObj [(''channel'', JNum (Fin 51)), (''killedAt'', JNum (Fin 200))],
               JObj [(''channel'', JNum (Fin 2)), (''killedAt'', JNum (Fin 300))]])]"

text \<open>A raw table whose explicit \<^verbatim>\<open>channelsCount\<close> is 1000.\<close>

definition rawThousand :: jsval where
  "rawThousand =
     JObj [(''bossName'', JStr ''Balrog''),
           (''channelsCount'', JNum (Fin 1000)),
           (''channels'', JArr
              [JObj [(''channel'', JNum (Fin 2)), (''killedAt'', JNum (Fin 100))]])]"

text \<open>
  A raw table whose explicit \<^verbatim>\<open>channelsCount\<close> is 0 and whose only channel is
  channel 5, and one whose explicit \<^verbatim>\<open>channelsCount\<close> is \<open>-5\<close> and that has no channel.
\<close>

definition rawZeroFive :: jsval where
  "rawZeroFive =
     JObj [(''bossName'', JStr ''Balrog''),
           (''channelsCount'', JNum (Fin 0)),
           (''channels'', JArr
              [JObj [(''channel'', JNum (Fin 5)), (''killedAt'', JNum (Fin 100))]])]"

definition rawMinusFive :: jsval where
  "rawMinusFive =
     JObj [(''bossName'', JStr ''Balrog''), (''channelsCount'', JNum (Fin (- 5)))]"

text \<open>
  Two boards for the same boss: locally channel 3 was killed at 100, the imported board
  has four channels and its channel 3 was killed at 200. Every other channel is empty.
\<close>

definition killedChannel :: "real \<Rightarrow> real \<Rightarrow> ChannelTimer" where
  "killedChannel n t =
     \<lparr>channel = n, killedAt = Some t, earliestRespawnAt = None, latestRespawnAt = None\<rparr>"

definition localBalrog :: BossTable where
  "localBalrog =
     \<lparr>table_id = ''a'', bossName = ''Balrog'', channelsCount = 3,
      channels = [emptyChannel 1, emptyChannel 2, killedChannel 3 100],
      createdAt = 10\<rparr>"

definition importedBalrog :: BossTable where
  "importedBalrog =
     \<lparr>table_id = ''b'', bossName = ''Balrog'', channelsCount = 4,
      channels = [emptyChannel 1, emptyChannel 2, killedChannel 3 200, emptyChannel 4],
      createdAt = 20\<rparr>"

text \<open>Two imported boards for new bosses that both carry the identifier of the local board.\<close>

definition importedZakum :: BossTable where
  "importedZakum =
     \<lparr>table_id = ''a'', bossName = ''Zakum'', channelsCount = 1,
      channels = [killedChannel 1 500], createdAt = 30\<rparr>"

definition importedPianus :: BossTable where
  "importedPianus =
     \<lparr>table_id = ''a'', bossName = ''Pianus'', channelsCount = 1,
      channels = [emptyChannel 1], createdAt = 40\<rparr>"

text \<open>
  A preview whose only merged table is well formed and whose only conflict is recorded for
  channel 3 of that table with sides that carry the channel number 5.
\<close>

definition forgedPreview :: MergePreview where
  "forgedPreview =
     \<lparr>mergedTables = [localBalrog],
      conflicts = [\<lparr>conflict_id = ''a:3:0'', conflict_bossName = ''Balrog'', tableId = ''a'',
                    conflict_channel = 3, mine = killedChannel 5 100,
                    theirs = killedChannel 5 200\<rparr>],
      defaultChoices = [''a:3:0'' \<mapsto> Mine]\<rparr>"

text \<open>A local collection with two boards for the same boss.\<close>

definition secondBalrog :: BossTable where
  "secondBalrog =
     \<lparr>table_id = ''c'', bossName = ''Balrog'', channelsCount = 3,
      channels = [emptyChannel 1, emptyChannel 2, killedChannel 3 200],
      createdAt = 50\<rparr>"

text \<open>
  Backup texts and the values they parse to. \<open>envelopeNewer\<close> declares version 2,
  \<open>envelopeNoZone\<close> declares version 1 and no time zone, and \<open>backupOfBalrog\<close> is the
  payload \<^verbatim>\<open>exportState\<close> builds for the collection \<open>[localBalrog]\<close> on the sample host
  at its first clock reading.
\<close>

definition jsonString :: "string \<Rightarrow> string" where
  "jsonString s = dquote @ s @ dquote"

definition envelopeNewer :: jsval where
  "envelopeNewer = JObj [(''version'', JNum (Fin 2)), (''tables'', JArr [])]"

definition textNewer :: string where
  "textNewer = ''{'' @ jsonString ''version'' @ '':2,'' @ jsonString ''tables'' @ '':[]}''"

definition envelopeNoZone :: jsval where
  "envelopeNoZone = JObj [(''version'', JNum (Fin 1)), (''tables'', JArr [])]"

definition textNoZone :: string where
  "textNoZone = ''{'' @ jsonString ''version'' @ '':1,'' @ jsonString ''tables'' @ '':[]}''"

definition backupOfBalrog :: jsval where
  "backupOfBalrog =
     JObj [(''version'', JNum (Fin 1)),
           (''storageVersion'', JStr ''boss-timer/v1''),
           (''exportedAt'', JNum (Fin 1700000000000)),
           (''timezone'', JStr ''Asia/Seoul''),
           (''tables'', JArr
              [JObj [(''id'', JStr ''a''),
                     (''bossName'', JStr ''Balrog''),
                     (''channelsCount'', JNum (Fin 3)),
                     (''channels'', JArr
                        [JObj [(''channel'', JNum (Fin 1))],
                         JObj [(''channel'', JNum (Fin 2))],
                         JObj [(''channel'', JNum (Fin 3)), (''killedAt'', JNum (Fin 100))]]),
                     (''createdAt'', JNum (Fin 10))]])]"

definition textOfBalrog :: string where
  "textOfBalrog =
     ''{'' @ jsonString ''version'' @ '':1,''
       @ jsonString ''storageVersion'' @ '':'' @ jsonString ''boss-timer/v1'' @ '',''
       @ jsonString ''exportedAt'' @ '':1700000000000,''
       @ jsonString ''timezone'' @ '':'' @ jsonString ''Asia/Seoul'' @ '',''
       @ jsonString ''tables'' @ '':[{''
       @ jsonString ''id'' @ '':'' @ jsonString ''a'' @ '',''
       @ jsonString ''bossName'' @ '':'' @ jsonString ''Balrog'' @ '',''
       @ jsonString ''channelsCount'' @ '':3,''
       @ jsonString ''channels'' @ '':[{'' @ jsonString ''channel'' @ '':1},{''
       @ jsonString ''channel'' @ '':2},{'' @ jsonString ''channel'' @ '':3,''
       @ jsonString ''killedAt'' @ '':100}],''
       @ jsonString ''createdAt'' @ '':10}]}''"

text \<open>
  A well-formed table whose boss name is a single space, and the payload
  \<^verbatim>\<open>exportState\<close> builds for the collection \<open>[blankName]\<close>.
\<close>

definition blankName :: BossTable where
  "blankName =
     \<lparr>table_id = ''a'', bossName = '' '', channelsCount = 1,
      channels = [emptyChannel 1], createdAt = 10\<rparr>"

definition backupOfBlank :: jsval where
  "backupOfBlank =
     JObj [(''version'', JNum (Fin 1)),
           (''storageVersion'', JStr ''boss-timer/v1''),
           (''exportedAt'', JNum (Fin 1700000000000)),
           (''timezone'', JStr ''Asia/Seoul''),
           (''tables'', JArr
              [JObj [(''id'', JStr ''a''),
                     (''bossName'', JStr '' ''),
                     (''channelsCount'', JNum (Fin 1)),
                     (''channels'', JArr [JObj [(''channel'', JNum (Fin 1))]]),
                     (''createdAt'', JNum (Fin 10))]])]"

definition textOfBlank :: string where
  "textOfBlank =
     ''{'' @ jsonString ''version'' @ '':1,''
       @ jsonString ''storageVersion'' @ '':'' @ jsonString ''boss-timer/v1'' @ '',''
       @ jsonString ''exportedAt'' @ '':1700000000000,''
       @ jsonString ''timezone'' @ '':'' @ jsonString ''Asia/Seoul'' @ '',''
       @ jsonString ''tables'' @ '':[{''
       @ jsonString ''id'' @ '':'' @ jsonString ''a'' @ '',''
       @ jsonString ''bossName'' @ '':'' @ jsonString '' '' @ '',''
       @ jsonString ''channelsCount'' @ '':1,''
       @ jsonString ''channels'' @ '':[{'' @ jsonString ''channel'' @ '':1}],''
       @ jsonString ''createdAt'' @ '':10}]}''"

text \<open>
  An envelope of version 1 with an empty tables array whose \<^verbatim>\<open>timezone\<close> is the object
  \<^verbatim>\<open>{"toString":1}\<close>, and one whose \<^verbatim>\<open>timezone\<close> is the number 5.
\<close>

definition envelopeBadZone :: jsval where
  "envelopeBadZone =
     JObj [(''version'', JNum (Fin 1)), (''tables'', JArr []),
           (''timezone'', JObj [(''toString'', JNum (Fin 1))])]"

definition textBadZone :: string where
  "textBadZone =
     ''{'' @ jsonString ''version'' @ '':1,'' @ jsonString ''tables'' @ '':[],''
       @ jsonString ''timezone'' @ '':{'' @ jsonString ''toString'' @ '':1}}''"

definition envelopeNumberZone :: jsval where
  "envelopeNumberZone =
     JObj [(''version'', JNum (Fin 1)), (''tables'', JArr []), (''timezone'', JNum (Fin 5))]"

definition textNumberZone :: string where
  "textNumberZone =
     ''{'' @ jsonString ''version'' @ '':1,'' @ jsonString ''tables'' @ '':[],''
       @ jsonString ''timezone'' @ '':5}''"

text \<open>
  The sample host serialises the two payloads to their texts and parses the six texts
  above; every other text is a syntax error for it.
\<close>

definition sampleHost :: platform where
  "sampleHost =
     demoPlatform
       (\<lambda>v. if v = backupOfBalrog then textOfBalrog
            else if v = backupOfBlank then textOfBlank else ''null'')
       (map_of [(textNewer, envelopeNewer), (textNoZone, envelopeNoZone),
                (textOfBalrog, backupOfBalrog), (textOfBlank, backupOfBlank),
                (textBadZone, envelopeBadZone), (textNumberZone, envelopeNumberZone)])"

section \<open>Maps, clamping and the rebuilt channels\<close>

lemma map_of_mapSet: "map_of (mapSet k v m) = (map_of m)(k \<mapsto> v)"
  by (induction m) (auto simp: fun_eq_iff)

lemma map_of_fold_mapSet:
  "map_of (fold (\<lambda>e m. mapSet (fst e) (snd e) m) es m) = map_of m ++ map_of (rev es)"
proof (induction es arbitrary: m)
  case Nil
  then show ?case by simp
next
  case (Cons e es)
  show ?case
    by (simp add: Cons.IH map_of_mapSet map_add_def fun_eq_iff split: option.splits)
qed

lemma mapGet_mapFromEntries: "mapGet (mapFromEntries es) k = map_of (rev es) k"
  by (simp add: mapGet_def mapFromEntries_def map_of_fold_mapSet)

lemma mapSet_fresh: "k \<notin> fst ` set m \<Longrightarrow> mapSet k v m = m @ [(k, v)]"
  by (induction m) auto

lemma fold_mapSet_distinct:
  "distinct (map fst (m @ es)) \<Longrightarrow> fold (\<lambda>e m. mapSet (fst e) (snd e) m) es m = m @ es"
proof (induction es arbitrary: m)
  case Nil
  then show ?case by simp
next
  case (Cons e es)
  from Cons.prems have fresh: "fst e \<notin> fst ` set m" by auto
  from Cons.prems have "distinct (map fst ((m @ [e]) @ es))" by auto
  from Cons.IH[OF this] show ?case by (simp add: mapSet_fresh[OF fresh])
qed

lemma mapFromEntries_distinct: "distinct (map fst es) \<Longrightarrow> mapFromEntries es = es"
  using fold_mapSet_distinct[of "[]" es] by (simp add: mapFromEntries_def)

lemma mapGet_keyed:
  "mapGet (mapFromEntries (map (\<lambda>c. (f c, c)) xs)) k = Some c \<Longrightarrow> f c = k \<and> c \<in> set xs"
  by (auto simp: mapGet_mapFromEntries rev_map[symmetric] dest!: map_of_SomeD)

lemma clamp_range: "1 \<le> clampChannelsCount v \<and> clampChannelsCount v \<le> 50"
  by (simp add: clampChannelsCount_def MIN_CHANNELS_def MAX_CHANNELS_def)

lemma clamp_integral: "real (nat \<lfloor>clampChannelsCount v\<rfloor>) = clampChannelsCount v"
  by (simp add: clampChannelsCount_def MIN_CHANNELS_def MAX_CHANNELS_def max_def min_def)

lemma clamp_fixed: "1 \<le> n \<Longrightarrow> n \<le> 50 \<Longrightarrow> clampChannelsCount (real n) = real n"
  by (simp add: clampChannelsCount_def MIN_CHANNELS_def MAX_CHANNELS_def max_def min_def)

lemma length_rebuiltChannels:
  "length (rebuiltChannels table) = nat \<lfloor>finalChannelsCount table\<rfloor>"
  by (simp add: rebuiltChannels_def Let_def)

lemma channel_rebuiltChannels:
  "map channel (rebuiltChannels table) = map real [1 ..< Suc (nat \<lfloor>finalChannelsCount table\<rfloor>)]"
proof -
  have "channel (case mapGet (mapFromEntries (map (\<lambda>c. (channel c, c)) u)) (real idx + 1) of
                   Some c \<Rightarrow> c | None \<Rightarrow> emptyChannel (real idx + 1)) = real (Suc idx)" for u idx
    by (auto simp: emptyChannel_def split: option.splits dest!: mapGet_keyed)
  then have "map channel (rebuiltChannels table) = map (\<lambda>i. real (Suc i)) [0 ..< nat \<lfloor>finalChannelsCount table\<rfloor>]"
    by (simp add: rebuiltChannels_def Let_def)
  also have "\<dots> = map real (map Suc [0 ..< nat \<lfloor>finalChannelsCount table\<rfloor>])"
    by simp
  also have "map Suc [0 ..< nat \<lfloor>finalChannelsCount table\<rfloor>] = [1 ..< Suc (nat \<lfloor>finalChannelsCount table\<rfloor>)]"
    by (simp add: map_Suc_upt)
  finally show ?thesis .
qed

lemma normalizeTable_SomeD:
  assumes "normalizeTable P table index s = (Some t, s')"
  shows "accepts table" "getProp table ''bossName'' = JStr (bossName t)"
    "channelsCount t = finalChannelsCount table" "channels t = rebuiltChannels table"
  using assms
  by (auto simp: normalizeTable_def accepts_def Let_def split: if_splits jsval.splits prod.splits)

lemma normalizeTable_accepts:
  assumes "accepts table"
  shows "\<exists>t s'. normalizeTable P table index s = (Some t, s')"
  using assms
  by (auto simp: normalizeTable_def accepts_def Let_def split: if_splits jsval.splits prod.splits)

lemma normalizeTable_rejects:
  assumes "\<not> accepts table"
  shows "fst (normalizeTable P table index s) = None"
  using assms
  by (auto simp: normalizeTable_def accepts_def Let_def split: if_splits jsval.splits prod.splits)

lemma normalizeTable_invariant:
  assumes "normalizeTable P table index s = (Some t, s')"
  shows "tableInvariant t"
proof -
  note d = normalizeTable_SomeD[OF assms]
  define n where "n = nat \<lfloor>finalChannelsCount table\<rfloor>"
  have len: "length (channels t) = n"
    by (simp add: d length_rebuiltChannels n_def)
  have cnt: "channelsCount t = real n"
    using clamp_integral[of "max (requestedCount table) (maxChannel table)"]
    by (simp add: d finalChannelsCount_def n_def)
  have rng: "1 \<le> channelsCount t \<and> channelsCount t \<le> 50"
    using clamp_range[of "max (requestedCount table) (maxChannel table)"]
    by (simp add: d finalChannelsCount_def)
  have lab: "map channel (channels t) = map real [1 ..< Suc n]"
    using channel_rebuiltChannels[of table] by (simp only: d n_def)
  show ?thesis
    unfolding tableInvariant_def len using cnt rng lab by simp
qed

lemma mapSet_keys: "fst ` set (mapSet k v m) = insert k (fst ` set m)"
  by (induction m) auto

lemma mapSet_distinct: "distinct (map fst m) \<Longrightarrow> distinct (map fst (mapSet k v m))"
proof (induction m)
  case Nil
  then show ?case by simp
next
  case (Cons p ps)
  then show ?case
    using mapSet_keys[of k v ps] by (auto simp: image_iff)
qed

lemma mapSet_values: "snd ` set (mapSet k v m) \<subseteq> insert v (snd ` set m)"
  by (induction m) auto

lemma mapSet_keyed:
  "f v = k \<Longrightarrow> \<forall>e \<in> set m. f (snd e) = fst e \<Longrightarrow> \<forall>e \<in> set (mapSet k v m). f (snd e) = fst e"
  by (induction m) auto

lemma dedupe_distinct:
  "distinct (map fst m) \<Longrightarrow> distinct (map fst (fold (\<lambda>c m. mapSet (f c) c m) cs m))"
  by (induction cs arbitrary: m) (simp_all add: mapSet_distinct)

lemma dedupe_keyed:
  "\<forall>e \<in> set m. f (snd e) = fst e \<Longrightarrow>
   \<forall>e \<in> set (fold (\<lambda>c m. mapSet (f c) c m) cs m). f (snd e) = fst e"
proof (induction cs arbitrary: m)
  case Nil
  then show ?case by simp
next
  case (Cons c cs)
  have "\<forall>e \<in> set (mapSet (f c) c m). f (snd e) = fst e"
    by (rule mapSet_keyed[OF refl Cons.prems])
  from Cons.IH[OF this] show ?case by simp
qed

lemma dedupe_keys:
  "fst ` set (fold (\<lambda>c m. mapSet (f c) c m) cs m) = fst ` set m \<union> f ` set cs"
proof (induction cs arbitrary: m)
  case Nil
  then show ?case by simp
next
  case (Cons c cs)
  show ?case by (simp add: Cons.IH mapSet_keys)
qed

lemma dedupe_values:
  "snd ` set (fold (\<lambda>c m. mapSet (f c) c m) cs m) \<subseteq> snd ` set m \<union> set cs"
proof (induction cs arbitrary: m)
  case Nil
  then show ?case by simp
next
  case (Cons c cs)
  have "snd ` set (fold (\<lambda>c m. mapSet (f c) c m) cs (mapSet (f c) c m))
          \<subseteq> snd ` set (mapSet (f c) c m) \<union> set cs"
    by (rule Cons.IH)
  also have "\<dots> \<subseteq> insert c (snd ` set m) \<union> set cs"
    using mapSet_values[of "f c" c m] by blast
  finally show ?case by auto
qed

lemma deduped_facts:
  "distinct (map fst (deduped table))"
  "\<forall>e \<in> set (deduped table). channel (snd e) = fst e"
  "fst ` set (deduped table) = channel ` set (parsedChannels table)"
  "snd ` set (deduped table) \<subseteq> set (parsedChannels table)"
  using dedupe_distinct[of "[]" channel "parsedChannels table"]
    dedupe_keyed[of "[]" channel "parsedChannels table"]
    dedupe_keys[of channel "parsedChannels table" "[]"]
    dedupe_values[of channel "parsedChannels table" "[]"]
  by (simp_all add: deduped_def)

lemma deduped_channels: "map channel (mapValues (deduped table)) = map fst (deduped table)"
  using deduped_facts(2)[of table] by (simp add: mapValues_def)

lemma set_uniqueChannels: "set (uniqueChannels table) = snd ` set (deduped table)"
  by (simp add: uniqueChannels_def mapValues_def)

lemma uniqueChannels_subset: "set (uniqueChannels table) \<subseteq> set (parsedChannels table)"
  using deduped_facts(4) by (simp add: set_uniqueChannels)

lemma uniqueChannels_numbers:
  "channel ` set (uniqueChannels table) = channel ` set (parsedChannels table)"
proof -
  have "channel ` set (uniqueChannels table) = set (map channel (mapValues (deduped table)))"
    by (simp add: uniqueChannels_def)
  also have "\<dots> = fst ` set (deduped table)"
    by (simp only: deduped_channels set_map)
  finally show ?thesis by (simp add: deduped_facts(3))
qed

lemma sorted_uniqueChannels: "sorted (map channel (uniqueChannels table))"
  by (simp add: uniqueChannels_def)

lemma distinct_uniqueChannels: "distinct (map channel (uniqueChannels table))"
proof -
  have "distinct (map channel (mapValues (deduped table)))"
    by (simp only: deduped_channels deduped_facts(1))
  then show ?thesis
    by (simp add: uniqueChannels_def distinct_map)
qed

lemma sorted_last_Max:
  fixes xs :: "real list"
  shows "sorted xs \<Longrightarrow> xs \<noteq> [] \<Longrightarrow> last xs = Max (set xs)"
proof (induction xs)
  case Nil
  then show ?case by simp
next
  case (Cons x xs)
  show ?case
  proof (cases "xs = []")
    case True
    then show ?thesis by simp
  next
    case False
    with Cons have "last xs = Max (set xs)" by simp
    moreover have "x \<le> Max (set xs)"
    proof -
      from False obtain y where y: "y \<in> set xs" by (cases xs) auto
      then have "x \<le> y" using Cons.prems by simp
      also have "y \<le> Max (set xs)" using y by simp
      finally show ?thesis .
    qed
    ultimately show ?thesis using False by (simp add: max_def)
  qed
qed

lemma maxChannel_Max:
  "maxChannel table =
     (if parsedChannels table = [] then 0 else Max (channel ` set (parsedChannels table)))"
proof (cases "uniqueChannels table = []")
  case True
  then have "channel ` set (parsedChannels table) = {}"
    using uniqueChannels_numbers[of table] by simp
  with True show ?thesis by (simp add: maxChannel_def)
next
  case False
  then have ne: "parsedChannels table \<noteq> []"
    using uniqueChannels_subset[of table] by (cases "uniqueChannels table") auto
  have "channel (last (uniqueChannels table)) = last (map channel (uniqueChannels table))"
    using False by (simp add: last_map)
  also have "\<dots> = Max (set (map channel (uniqueChannels table)))"
    using False by (intro sorted_last_Max sorted_uniqueChannels) simp
  also have "\<dots> = Max (channel ` set (parsedChannels table))"
    using uniqueChannels_numbers[of table] by simp
  finally show ?thesis using False ne by (simp add: maxChannel_def)
qed

lemma normalizeChannel_SomeD:
  assumes "normalizeChannel raw = Some c"
  shows "isObject raw"
    "\<exists>x. getProp raw ''channel'' = JNum (Fin x) \<and> channel c = max 1 (real_of_int \<lfloor>x\<rfloor>)"
    "killedAt c = toEpoch (getProp raw ''killedAt'')"
    "earliestRespawnAt c = toEpoch (getProp raw ''earliestRespawnAt'')"
    "latestRespawnAt c = toEpoch (getProp raw ''latestRespawnAt'')"
proof -
  from assms show obj: "isObject raw"
    by (auto simp: normalizeChannel_def split: if_splits)
  from assms obtain x where x: "getProp raw ''channel'' = JNum (Fin x)"
    by (auto simp: normalizeChannel_def split: if_splits jsval.splits jsnum.splits)
  from assms obj x have c: "c = \<lparr>channel = max 1 (real_of_int \<lfloor>x\<rfloor>),
          killedAt = toEpoch (getProp raw ''killedAt''),
          earliestRespawnAt = toEpoch (getProp raw ''earliestRespawnAt''),
          latestRespawnAt = toEpoch (getProp raw ''latestRespawnAt'')\<rparr>"
    by (simp add: normalizeChannel_def)
  from c x show "\<exists>x. getProp raw ''channel'' = JNum (Fin x) \<and> channel c = max 1 (real_of_int \<lfloor>x\<rfloor>)"
    by simp
  from c show "killedAt c = toEpoch (getProp raw ''killedAt'')"
    "earliestRespawnAt c = toEpoch (getProp raw ''earliestRespawnAt'')"
    "latestRespawnAt c = toEpoch (getProp raw ''latestRespawnAt'')"
    by simp_all
qed

lemma parsedChannels_number:
  assumes "c \<in> set (parsedChannels table)"
  shows "\<exists>k. 1 \<le> k \<and> channel c = real k"
proof -
  from assms obtain raw where "normalizeChannel raw = Some c"
    by (auto simp: parsedChannels_def List.map_filter_def split: jsval.splits)
  from normalizeChannel_SomeD(2)[OF this]
  obtain x :: real where "channel c = max 1 (real_of_int \<lfloor>x\<rfloor>)" by blast
  then obtain i :: int where c: "channel c = max 1 (real_of_int i)" by blast
  show ?thesis
  proof (cases "1 \<le> i")
    case True
    then have "channel c = real (nat i)" using c by (simp add: max_def)
    moreover from True have "1 \<le> nat i" by linarith
    ultimately show ?thesis by blast
  next
    case False
    then have "channel c = real 1" using c by (simp add: max_def)
    then show ?thesis by blast
  qed
qed

lemma clamp_ge:
  assumes "real k \<le> v" "k \<le> 50"
  shows "real k \<le> clampChannelsCount v"
proof -
  define z where "z = \<lfloor>v\<rfloor>"
  from assms(1) have "int k \<le> z" by (simp add: z_def le_floor_iff)
  then have "real k \<le> real_of_int z" by linarith
  with assms(2) have "real k \<le> max 1 (min 50 (real_of_int z))" by simp
  then show ?thesis
    by (simp only: clampChannelsCount_def MIN_CHANNELS_def MAX_CHANNELS_def z_def)
qed

lemma rebuiltChannels_keeps:
  assumes c: "c \<in> set (uniqueChannels table)" and le: "channel c \<le> 50"
  shows "c \<in> set (rebuiltChannels table)"
proof -
  let ?u = "uniqueChannels table"
  let ?n = "nat \<lfloor>finalChannelsCount table\<rfloor>"
  from c have cp: "c \<in> set (parsedChannels table)"
    using uniqueChannels_subset by blast
  then obtain k where k: "1 \<le> k" "channel c = real k"
    using parsedChannels_number by blast
  have "channel c \<le> Max (channel ` set (parsedChannels table))"
    using cp by simp
  then have "real k \<le> maxChannel table"
    using cp k by (auto simp: maxChannel_Max)
  then have "real k \<le> max (requestedCount table) (maxChannel table)"
    by simp
  moreover have "k \<le> 50" using le k by simp
  ultimately have "real k \<le> finalChannelsCount table"
    unfolding finalChannelsCount_def by (rule clamp_ge)
  then have kn: "k \<le> ?n" by (simp add: le_nat_floor)
  have "map_of (rev (map (\<lambda>c. (channel c, c)) ?u)) (channel c) = Some c"
  proof (rule map_of_is_SomeI)
    show "distinct (map fst (rev (map (\<lambda>c. (channel c, c)) ?u)))"
      using distinct_uniqueChannels[of table] by (simp add: rev_map[symmetric] comp_def distinct_rev)
    show "(channel c, c) \<in> set (rev (map (\<lambda>c. (channel c, c)) ?u))"
      using c by auto
  qed
  then have get: "mapGet (mapFromEntries (map (\<lambda>c. (channel c, c)) ?u)) (real (k - 1) + 1) = Some c"
    using k by (simp add: mapGet_mapFromEntries of_nat_diff)
  have lt: "k - 1 < ?n" using k kn by linarith
  have "rebuiltChannels table ! (k - 1) = c"
    using get lt by (simp add: rebuiltChannels_def Let_def)
  moreover have "k - 1 < length (rebuiltChannels table)"
    using lt by (simp only: length_rebuiltChannels)
  ultimately show ?thesis using nth_mem by blast
qed

lemmas value_defs = getProp_def mapGet_def mapFromEntries_def isObject_def toEpoch_def
  normalizeChannel_def parsedChannels_def List.map_filter_def deduped_def mapValues_def
  uniqueChannels_def

lemmas count_defs = maxChannel_def requestedCount_def finalChannelsCount_def
  clampChannelsCount_def MIN_CHANNELS_def MAX_CHANNELS_def

lemma rebuiltChannels_bound:
  assumes "c \<in> set (rebuiltChannels table)"
  shows "channel c \<le> finalChannelsCount table"
proof -
  from assms have "channel c \<in> set (map channel (rebuiltChannels table))" by simp
  then have "channel c \<in> real ` {1 ..< Suc (nat \<lfloor>finalChannelsCount table\<rfloor>)}"
    by (simp only: channel_rebuiltChannels set_map set_upt)
  then obtain k where "channel c = real k" "k \<le> nat \<lfloor>finalChannelsCount table\<rfloor>" by auto
  then show ?thesis
    using clamp_integral[of "max (requestedCount table) (maxChannel table)"]
    by (simp add: finalChannelsCount_def)
qed

lemma uniqueChannels_rawBeyondLimit:
  "uniqueChannels rawBeyondLimit =
   [\<lparr>channel = 2, killedAt = Some 300, earliestRespawnAt = None, latestRespawnAt = None\<rparr>,
    \<lparr>channel = 51, killedAt = Some 200, earliestRespawnAt = None, latestRespawnAt = None\<rparr>]"
  by (simp add: rawBeyondLimit_def value_defs)

lemma finalChannelsCount_rawBeyondLimit: "finalChannelsCount rawBeyondLimit = 50"
  by (simp add: uniqueChannels_rawBeyondLimit count_defs)

lemma accepts_rawBeyondLimit: "accepts rawBeyondLimit"
  by (simp add: accepts_def rawBeyondLimit_def getProp_def mapGet_def mapFromEntries_def
      isObject_def trim_def isWhiteSpace_def)

section \<open>Warnings, and tables that are already normal\<close>

lemma pushed_dateNow: "pushed (snd (dateNow P s)) = pushed s"
  by (simp add: dateNow_def)

lemma pushed_assignId: "pushed (snd (assignId P table index s)) = pushed s"
  by (simp add: assignId_def dateNow_def split: jsval.splits)

lemma pushed_assignCreatedAt: "pushed (snd (assignCreatedAt P table s)) = pushed s"
  by (simp add: assignCreatedAt_def dateNow_def split: option.splits)

lemma normalizeTable_pushed:
  assumes "isObject table" "getProp table ''bossName'' = JStr name" "length (trim name) \<noteq> 0"
  shows "pushed (snd (normalizeTable P table index s))
           = pushed (warnRebuilt P table name (warnClamped P table name s))"
  using assms pushed_assignId[of P table index "warnRebuilt P table name (warnClamped P table name s)"]
    pushed_assignCreatedAt[of P table "snd (assignId P table index (warnRebuilt P table name (warnClamped P table name s)))"]
  by (simp add: normalizeTable_def Let_def case_prod_beta)

lemma pushed_warnRebuilt:
  "\<exists>ws. pushed (warnRebuilt P table name s) = pushed s @ ws"
  by (simp add: warnRebuilt_def push_def)

lemma showNat_50: "showNat 50 = ''50''"
  by (simp add: showNat.simps digitChar_def)

lemma showNat_1: "showNat (Suc 0) = ''1''"
  by (subst showNat.simps) (simp add: digitChar_def)

lemma numberToString_50: "numberToString P 50 = ''50''"
  by (simp add: numberToString_def isSafeInteger_def showInt_def showNat_50)

lemma numberToString_1: "numberToString P 1 = ''1''"
  by (simp add: numberToString_def isSafeInteger_def showInt_def showNat_1)

lemma clamp_above: "50 < cc \<Longrightarrow> clampChannelsCount cc = 50"
proof -
  assume "50 < cc"
  then have "(50::int) \<le> \<lfloor>cc\<rfloor>" by (simp add: le_floor_iff)
  then have "(50::real) \<le> real_of_int \<lfloor>cc\<rfloor>" by linarith
  then show ?thesis
    by (simp add: clampChannelsCount_def MIN_CHANNELS_def MAX_CHANNELS_def)
qed

lemma clamp_below: "cc < 1 \<Longrightarrow> clampChannelsCount cc = 1"
proof -
  assume "cc < 1"
  then have "\<lfloor>cc\<rfloor> < 1" by (simp add: floor_less_iff)
  then have "real_of_int \<lfloor>cc\<rfloor> \<le> 0" by linarith
  then show ?thesis
    by (simp add: clampChannelsCount_def MIN_CHANNELS_def MAX_CHANNELS_def)
qed

lemma clamp_mono_ge: "50 \<le> v \<Longrightarrow> clampChannelsCount v = 50"
proof -
  assume "50 \<le> v"
  then have "(50::int) \<le> \<lfloor>v\<rfloor>" by (simp add: le_floor_iff)
  then have "(50::real) \<le> real_of_int \<lfloor>v\<rfloor>" by linarith
  then show ?thesis
    by (simp add: clampChannelsCount_def MIN_CHANNELS_def MAX_CHANNELS_def)
qed

lemma fold_mapSet_keyed:
  "fold (\<lambda>c m. mapSet (f c) c m) cs m
     = fold (\<lambda>e m. mapSet (fst e) (snd e) m) (map (\<lambda>c. (f c, c)) cs) m"
  by (induction cs arbitrary: m) simp_all

lemma entries_distinct:
  "distinct (map f cs) \<Longrightarrow> mapFromEntries (map (\<lambda>c. (f c, c)) cs) = map (\<lambda>c. (f c, c)) cs"
  by (rule mapFromEntries_distinct) (simp add: comp_def)

lemma mapGet_entries_nth:
  assumes "distinct (map f cs)" "i < length cs"
  shows "mapGet (map (\<lambda>c. (f c, c)) cs) (f (cs ! i)) = Some (cs ! i)"
  unfolding mapGet_def
proof (rule map_of_is_SomeI)
  show "distinct (map fst (map (\<lambda>c. (f c, c)) cs))"
    using assms(1) by (simp add: comp_def)
  show "(f (cs ! i), cs ! i) \<in> set (map (\<lambda>c. (f c, c)) cs)"
    using assms(2) by auto
qed

lemma sorted_numbering: "sorted (map real [1 ..< Suc n])"
  by (simp add: sorted_map sorted_wrt_iff_nth_less del: upt_Suc)

lemma distinct_numbering: "distinct (map real [1 ..< Suc n])"
  by (simp add: distinct_map del: upt_Suc)

text \<open>A table that satisfies the invariant, seen through its channel list.\<close>

lemma tableInvariant_nth:
  assumes "tableInvariant t" "i < length (channels t)"
  shows "channel (channels t ! i) = real i + 1"
proof -
  have "channel (channels t ! i) = map channel (channels t) ! i"
    using assms(2) by simp
  also have "\<dots> = map real [1 ..< Suc (length (channels t))] ! i"
    using assms(1) by (simp only: tableInvariant_def)
  also have "\<dots> = real (1 + i)"
    using assms(2) by (simp del: upt_Suc)
  finally show ?thesis by simp
qed

lemma normalizeTable_represented:
  assumes obj: "isObject v"
    and pid: "getProp v ''id'' = JStr (table_id t)"
    and pname: "getProp v ''bossName'' = JStr (bossName t)"
    and pcount: "getProp v ''channelsCount'' = JNum (Fin (channelsCount t))"
    and pchannels: "getProp v ''channels'' = JArr cs"
    and parsed: "List.map_filter normalizeChannel cs = channels t"
    and pcreated: "getProp v ''createdAt'' = JNum (Fin (createdAt t))"
    and inv: "tableInvariant t"
    and idne: "length (table_id t) > 0"
    and namene: "length (trim (bossName t)) \<noteq> 0"
  shows "normalizeTable P v index s = (Some t, s)"
proof -
  define n where "n = length (channels t)"
  from inv have cnt: "channelsCount t = real n"
    and lab: "map channel (channels t) = map real [1 ..< Suc n]"
    and n1: "1 \<le> n" and n50: "n \<le> 50"
    by (simp_all add: tableInvariant_def n_def)
  have ne: "channels t \<noteq> []" using n1 n_def by auto
  have dist: "distinct (map channel (channels t))"
    by (simp only: lab distinct_numbering)
  have srt: "sorted (map channel (channels t))"
    by (simp only: lab sorted_numbering)
  have pc: "parsedChannels v = channels t"
    by (simp add: parsedChannels_def pchannels parsed)
  have dd: "deduped v = map (\<lambda>c. (channel c, c)) (channels t)"
    using entries_distinct[OF dist]
    by (simp add: deduped_def pc fold_mapSet_keyed mapFromEntries_def)
  have uc: "uniqueChannels v = channels t"
    using srt by (simp add: uniqueChannels_def dd mapValues_def comp_def sort_key_id_if_sorted)
  have "channel (last (channels t)) = last (map channel (channels t))"
    using ne by (simp add: last_map)
  also have "\<dots> = real n"
    using n1 by (simp add: lab del: upt_Suc) (simp add: last_map)
  finally have mx: "maxChannel v = real n"
    using ne by (simp add: maxChannel_def uc)
  have rq: "requestedCount v = real n"
    by (simp add: requestedCount_def pcount cnt)
  have fc: "finalChannelsCount v = real n"
    using clamp_fixed[OF n1 n50] by (simp add: finalChannelsCount_def mx rq)
  have rb: "rebuiltChannels v = channels t"
  proof (rule nth_equalityI)
    show "length (rebuiltChannels v) = length (channels t)"
      by (simp add: length_rebuiltChannels fc n_def)
  next
    fix i assume "i < length (rebuiltChannels v)"
    then have i: "i < length (channels t)"
      by (simp add: length_rebuiltChannels fc n_def)
    have "mapGet (map (\<lambda>c. (channel c, c)) (channels t)) (channel (channels t ! i))
            = Some (channels t ! i)"
      by (rule mapGet_entries_nth[OF dist i])
    then have "mapGet (map (\<lambda>c. (channel c, c)) (channels t)) (real i + 1) = Some (channels t ! i)"
      by (simp only: tableInvariant_nth[OF inv i])
    then show "rebuiltChannels v ! i = channels t ! i"
      using i by (simp add: rebuiltChannels_def Let_def uc entries_distinct[OF dist] fc n_def)
  qed
  have w1: "warnClamped P v (bossName t) s = s"
    using clamp_fixed[OF n1 n50] by (simp add: warnClamped_def pcount cnt Let_def)
  have w2: "warnRebuilt P v (bossName t) s = s"
    by (simp add: warnRebuilt_def fc uc n_def)
  have ai: "assignId P v index s = (table_id t, s)"
    using idne by (simp add: assignId_def pid)
  have ac: "assignCreatedAt P v s = (createdAt t, s)"
    by (simp add: assignCreatedAt_def pcreated toEpoch_def)
  show ?thesis
    using namene
    by (simp add: normalizeTable_def obj pname Let_def w1 w2 ai ac fc rb cnt)
qed

lemma toEpoch_optionalValue: "toEpoch (optionalValue x) = x"
  by (cases x) (simp_all add: toEpoch_def optionalValue_def)

lemma normalizeChannel_channelValue:
  assumes "channel c = real k" "1 \<le> k"
  shows "normalizeChannel (channelValue c) = Some c"
proof -
  have "max 1 (real_of_int \<lfloor>real k\<rfloor>) = real k" using assms(2) by simp
  then show ?thesis
    using assms(1)
    by (simp add: normalizeChannel_def channelValue_def isObject_def getProp_def mapGet_def
        mapFromEntries_def toEpoch_optionalValue)
qed

lemma map_filter_all_Some:
  "\<forall>x \<in> set xs. f (g x) = Some x \<Longrightarrow> List.map_filter f (map g xs) = xs"
  by (induction xs) (simp_all add: List.map_filter_simps)

lemma tableInvariant_numbered:
  assumes "tableInvariant t" "c \<in> set (channels t)"
  shows "\<exists>k. 1 \<le> k \<and> channel c = real k"
proof -
  from assms(2) obtain i where i: "i < length (channels t)" "c = channels t ! i"
    by (auto simp: in_set_conv_nth)
  have "channel c = real (Suc i)"
    using tableInvariant_nth[OF assms(1) i(1)] i(2) by simp
  then show ?thesis by (intro exI[of _ "Suc i"]) simp
qed

lemma parsed_channelValues:
  assumes "tableInvariant t"
  shows "List.map_filter normalizeChannel (map channelValue (channels t)) = channels t"
proof (rule map_filter_all_Some, rule ballI)
  fix c assume "c \<in> set (channels t)"
  then obtain k where "1 \<le> k" "channel c = real k"
    using tableInvariant_numbered[OF assms] by blast
  then show "normalizeChannel (channelValue c) = Some c"
    by (simp add: normalizeChannel_channelValue)
qed

lemma normalizeTable_tableValue:
  assumes "tableInvariant t" "length (table_id t) > 0" "length (trim (bossName t)) \<noteq> 0"
  shows "normalizeTable P (tableValue t) index s = (Some t, s)"
proof (rule normalizeTable_represented[OF _ _ _ _ _ parsed_channelValues[OF assms(1)] _ assms])
  show "isObject (tableValue t)" by (simp add: tableValue_def isObject_def)
  show "getProp (tableValue t) ''id'' = JStr (table_id t)"
    by (simp add: tableValue_def getProp_def mapGet_def mapFromEntries_def)
  show "getProp (tableValue t) ''bossName'' = JStr (bossName t)"
    by (simp add: tableValue_def getProp_def mapGet_def mapFromEntries_def)
  show "getProp (tableValue t) ''channelsCount'' = JNum (Fin (channelsCount t))"
    by (simp add: tableValue_def getProp_def mapGet_def mapFromEntries_def)
  show "getProp (tableValue t) ''channels'' = JArr (map channelValue (channels t))"
    by (simp add: tableValue_def getProp_def mapGet_def mapFromEntries_def)
  show "getProp (tableValue t) ''createdAt'' = JNum (Fin (createdAt t))"
    by (simp add: tableValue_def getProp_def mapGet_def mapFromEntries_def)
qed

lemma assignId_nonempty: "length (fst (assignId P table index s)) > 0"
  by (simp add: assignId_def dateNow_def split: jsval.splits)

lemma normalizeTable_id_nonempty:
  assumes "normalizeTable P table index s = (Some t, s')"
  shows "length (table_id t) > 0"
proof -
  from assms obtain s2 where "table_id t = fst (assignId P table index s2)"
    by (auto simp: normalizeTable_def Let_def case_prod_beta split: if_splits jsval.splits)
  then show ?thesis by (simp only: assignId_nonempty)
qed

lemma normalizeTable_name_nonblank:
  assumes "normalizeTable P table index s = (Some t, s')"
  shows "length (trim (bossName t)) \<noteq> 0"
  using normalizeTable_SomeD(1,2)[OF assms] by (simp add: accepts_def)

section \<open>The merge loops\<close>

lemma cloneChannel_id: "cloneChannel c = c"
  by (simp add: cloneChannel_def)

lemma map_cloneChannel: "map cloneChannel cs = cs"
  by (induction cs) (simp_all add: cloneChannel_id)

lemma cloneTable_id: "cloneTable t = t"
  by (simp add: cloneTable_def map_cloneChannel)

lemma map_cloneTable: "map cloneTable ts = ts"
  by (induction ts) (simp_all add: cloneTable_id)

text \<open>\<^verbatim>\<open>findIndex\<close> returns the first position that satisfies the test.\<close>

lemma findIndex_Some:
  "findIndex p xs = Some i \<Longrightarrow> i < length xs \<and> p (xs ! i) \<and> (\<forall>j < i. \<not> p (xs ! j))"
proof (induction xs arbitrary: i)
  case Nil
  then show ?case by simp
next
  case (Cons x xs)
  show ?case
  proof (cases "p x")
    case True
    with Cons.prems show ?thesis by simp
  next
    case False
    with Cons.prems obtain i' where i': "findIndex p xs = Some i'" "i = Suc i'"
      by auto
    from Cons.IH[OF i'(1)] False i'(2) show ?thesis
      by (auto simp: nth_Cons split: nat.splits)
  qed
qed

lemma findIndex_None: "findIndex p xs = None \<Longrightarrow> \<forall>x \<in> set xs. \<not> p x"
  by (induction xs) (auto split: if_splits)

lemma findIndex_first:
  assumes "i < length xs" "p (xs ! i)" "\<forall>j < i. \<not> p (xs ! j)"
  shows "findIndex p xs = Some i"
proof (cases "findIndex p xs")
  case None
  with assms(1,2) show ?thesis
    using findIndex_None[of p xs] nth_mem by blast
next
  case (Some k)
  from findIndex_Some[OF Some] assms have "k = i"
    by (metis linorder_neqE_nat)
  with Some show ?thesis by simp
qed

lemma channel_channelOrEmpty: "channel (channelOrEmpty (byChannelOf cs) k) = real k"
  by (auto simp: channelOrEmpty_def byChannelOf_def emptyChannel_def split: option.splits dest!: mapGet_keyed)

lemma channelOrEmpty_invariant:
  assumes "tableInvariant t"
  shows "channelOrEmpty (byChannelOf (channels t)) k =
           (if 1 \<le> k \<and> k \<le> length (channels t) then channels t ! (k - 1)
            else emptyChannel (real k))"
proof -
  have lab: "map channel (channels t) = map real [1 ..< Suc (length (channels t))]"
    using assms by (simp add: tableInvariant_def)
  have dist: "distinct (map channel (channels t))"
    by (simp only: lab distinct_numbering)
  show ?thesis
  proof (cases "1 \<le> k \<and> k \<le> length (channels t)")
    case True
    then have i: "k - 1 < length (channels t)" by linarith
    have "channel (channels t ! (k - 1)) = real k"
      using tableInvariant_nth[OF assms i] True by (simp add: of_nat_diff)
    then have "mapGet (map (\<lambda>c. (channel c, c)) (channels t)) (real k)
                 = Some (channels t ! (k - 1))"
      using mapGet_entries_nth[OF dist i] by simp
    then show ?thesis
      using True by (simp add: channelOrEmpty_def byChannelOf_def entries_distinct[OF dist])
  next
    case False
    have "real k \<notin> set (map channel (channels t))"
      using False by (auto simp: lab simp del: upt_Suc)
    then have "map_of (map (\<lambda>c. (channel c, c)) (channels t)) (real k) = None"
      by (simp add: map_of_eq_None_iff image_iff)
    then have "channelOrEmpty (byChannelOf (channels t)) k = emptyChannel (real k)"
      by (simp add: channelOrEmpty_def byChannelOf_def entries_distinct[OF dist] mapGet_def)
    with False show ?thesis by auto
  qed
qed

lemma mergeChannel_step:
  "\<exists>x cs' dc'.
     mergeChannel P e (byChannelOf ms) (byChannelOf ts) k (nc, cs, dc) = (nc @ [x], cs', dc') \<and>
     channel x = real k \<and>
     (\<forall>c \<in> set cs'. c \<in> set cs \<or> conflictConsistent c)"
  by (simp add: mergeChannel_def Let_def cloneChannel_id channel_channelOrEmpty
      emptyChannel_def conflictConsistent_def)

lemma fold_mergeChannel:
  "\<exists>xs cs' dc'.
     fold (mergeChannel P e (byChannelOf ms) (byChannelOf ts)) ks (nc, cs, dc)
       = (nc @ xs, cs', dc') \<and>
     map channel xs = map real ks \<and>
     (\<forall>c \<in> set cs'. c \<in> set cs \<or> conflictConsistent c)"
proof (induction ks arbitrary: nc cs dc)
  case Nil
  then show ?case by simp
next
  case (Cons k ks)
  obtain x cs1 dc1 where
    step: "mergeChannel P e (byChannelOf ms) (byChannelOf ts) k (nc, cs, dc) = (nc @ [x], cs1, dc1)"
    and x: "channel x = real k"
    and c1: "\<forall>c \<in> set cs1. c \<in> set cs \<or> conflictConsistent c"
    using mergeChannel_step[of P e ms ts k nc cs dc] by blast
  obtain xs cs2 dc2 where
    rest: "fold (mergeChannel P e (byChannelOf ms) (byChannelOf ts)) ks (nc @ [x], cs1, dc1)
             = ((nc @ [x]) @ xs, cs2, dc2)"
    and xs: "map channel xs = map real ks"
    and c2: "\<forall>c \<in> set cs2. c \<in> set cs1 \<or> conflictConsistent c"
    using Cons.IH[of "nc @ [x]" cs1 dc1] by blast
  have "fold (mergeChannel P e (byChannelOf ms) (byChannelOf ts)) (k # ks) (nc, cs, dc)
          = (nc @ (x # xs), cs2, dc2)"
    by (simp add: step rest)
  moreover have "map channel (x # xs) = map real (k # ks)"
    by (simp add: x xs)
  moreover have "\<forall>c \<in> set cs2. c \<in> set cs \<or> conflictConsistent c"
    using c1 c2 by blast
  ultimately show ?case by blast
qed

text \<open>What \<^verbatim>\<open>mergeInto\<close> leaves in the state.\<close>

lemma mergeInto_result:
  assumes "targetIndex < length (m_tables st)"
  shows "\<exists>t'. m_tables (mergeInto P targetIndex imp st) = (m_tables st)[targetIndex := t'] \<and>
          table_id t' = table_id (m_tables st ! targetIndex) \<and>
          bossName t' = bossName (m_tables st ! targetIndex) \<and>
          tableInvariant t' \<and>
          (\<forall>c \<in> set (m_conflicts (mergeInto P targetIndex imp st)).
              c \<in> set (m_conflicts st) \<or> conflictConsistent c) \<and>
          usedIds (mergeInto P targetIndex imp st) = usedIds st \<and>
          generated (mergeInto P targetIndex imp st) = generated st"
proof -
  let ?e = "m_tables st ! targetIndex"
  let ?mc = "clampChannelsCount (max (channelsCount ?e) (channelsCount imp))"
  let ?n = "nat \<lfloor>?mc\<rfloor>"
  obtain xs cs' dc' where
    f: "fold (mergeChannel P ?e (byChannelOf (channels ?e)) (byChannelOf (channels imp)))
          [1 ..< Suc ?n] ([], m_conflicts st, m_choices st) = ([] @ xs, cs', dc')"
    and xs: "map channel xs = map real [1 ..< Suc ?n]"
    and cs: "\<forall>c \<in> set cs'. c \<in> set (m_conflicts st) \<or> conflictConsistent c"
    using fold_mergeChannel[of P ?e "channels ?e" "channels imp" "[1 ..< Suc ?n]" "[]"
        "m_conflicts st" "m_choices st"] by blast
  have res: "mergeInto P targetIndex imp st
      = st\<lparr>m_tables := (m_tables st)[targetIndex := ?e\<lparr>channelsCount := ?mc, channels := xs\<rparr>],
           m_conflicts := cs', m_choices := dc'\<rparr>"
    using f by (simp add: mergeInto_def Let_def del: upt_Suc)
  have len: "length xs = ?n"
    using arg_cong[OF xs, of length] by (simp del: upt_Suc)
  have inv: "tableInvariant (?e\<lparr>channelsCount := ?mc, channels := xs\<rparr>)"
    using clamp_range[of "max (channelsCount ?e) (channelsCount imp)"]
      clamp_integral[of "max (channelsCount ?e) (channelsCount imp)"] xs
    by (simp add: tableInvariant_def len del: upt_Suc)
  show ?thesis
    using inv cs by (intro exI[of _ "?e\<lparr>channelsCount := ?mc, channels := xs\<rparr>"]) (simp add: res)
qed

lemma nextFreshId_fresh:
  assumes "nextFreshId P ids k = Some r"
  shows "fst r \<notin> set ids"
proof -
  have "fst r \<notin> set (snd (fst ((P, ids), k)))"
    by (rule nextFreshId.raw_induct[where Pa = "\<lambda>a r. fst r \<notin> set (snd (fst a))", OF _ assms])
      (auto split: if_splits)
  then show ?thesis by simp
qed

lemma nextFreshId_returns:
  assumes "k \<le> j" "generateTableId P j \<notin> set ids"
  shows "\<exists>r. nextFreshId P ids k = Some r"
  using assms
proof (induction "j - k" arbitrary: k)
  case 0
  then have "k = j" by simp
  with 0 show ?case by (subst nextFreshId.simps) simp
next
  case (Suc d)
  show ?case
  proof (cases "generateTableId P k \<in> set ids")
    case True
    from Suc have "d = j - Suc k" "Suc k \<le> j" by linarith+
    from Suc.hyps(1)[OF this Suc.prems(2)] True show ?thesis
      by (subst nextFreshId.simps) simp
  next
    case False
    then show ?thesis by (subst nextFreshId.simps) simp
  qed
qed

lemma ensureUniqueId_Some:
  assumes "ensureUniqueId P ids k preferred = Some (i, ids', k')"
  shows "i \<notin> set ids" "ids' = ids @ [i]"
  using assms nextFreshId_fresh[of P ids k]
  by (auto simp: ensureUniqueId_def split: if_splits option.splits prod.splits)

lemma ensureUniqueId_returns:
  assumes "\<exists>j \<ge> k. generateTableId P j \<notin> set ids"
  shows "\<exists>r. ensureUniqueId P ids k preferred = Some r"
proof -
  from assms obtain j where "k \<le> j" "generateTableId P j \<notin> set ids" by blast
  then obtain r where "nextFreshId P ids k = Some r"
    using nextFreshId_returns by blast
  then show ?thesis
    by (cases r) (simp add: ensureUniqueId_def)
qed

lemma set_list_update_subset: "set (xs[i := x]) \<subseteq> insert x (set xs)"
  by (rule set_update_subset_insert)

lemma map_update_same:
  assumes "i < length xs" "f x = f (xs ! i)"
  shows "map f (xs[i := x]) = map f xs"
  using assms by (simp add: map_update list_update_same_conv)

text \<open>One imported table: what a round of the outer loop preserves.\<close>

lemma mergeTable_invariant:
  assumes "mergeTable P imp st = Some st'"
    and "tableInvariant imp" and "\<forall>t \<in> set (m_tables st). tableInvariant t"
  shows "\<forall>t \<in> set (m_tables st'). tableInvariant t"
proof (cases "findIndex (\<lambda>t. bossName t = bossName imp) (m_tables st)")
  case None
  with assms(1) obtain i ids k where
    "st' = st\<lparr>m_tables := m_tables st @ [imp\<lparr>table_id := i\<rparr>], usedIds := ids, generated := k\<rparr>"
    by (auto simp: mergeTable_def split: option.splits)
  moreover have "tableInvariant (imp\<lparr>table_id := i\<rparr>)" for i
    using assms(2) by (simp add: tableInvariant_def)
  ultimately show ?thesis using assms(3) by auto
next
  case (Some idx)
  then have idx: "idx < length (m_tables st)" using findIndex_Some by blast
  from Some assms(1) have st': "st' = mergeInto P idx imp st"
    by (simp add: mergeTable_def)
  from mergeInto_result[OF idx, of P imp] obtain t' where
    "m_tables st' = (m_tables st)[idx := t']" "tableInvariant t'"
    unfolding st' by blast
  then show ?thesis
    using assms(3) set_list_update_subset[of "m_tables st" idx t'] by auto
qed

lemma mergeTable_conflicts:
  assumes "mergeTable P imp st = Some st'"
    and "\<forall>c \<in> set (m_conflicts st). conflictConsistent c"
  shows "\<forall>c \<in> set (m_conflicts st'). conflictConsistent c"
proof (cases "findIndex (\<lambda>t. bossName t = bossName imp) (m_tables st)")
  case None
  with assms(1) have "m_conflicts st' = m_conflicts st"
    by (auto simp: mergeTable_def split: option.splits)
  with assms(2) show ?thesis by simp
next
  case (Some idx)
  then have idx: "idx < length (m_tables st)" using findIndex_Some by blast
  from Some assms(1) have st': "st' = mergeInto P idx imp st"
    by (simp add: mergeTable_def)
  from mergeInto_result[OF idx, of P imp] assms(2) show ?thesis
    unfolding st' by blast
qed

lemma mergeTable_ids:
  assumes "mergeTable P imp st = Some st'"
    and "distinct (map table_id (m_tables st))"
    and "set (map table_id (m_tables st)) \<subseteq> set (usedIds st)"
  shows "distinct (map table_id (m_tables st')) \<and>
         set (map table_id (m_tables st')) \<subseteq> set (usedIds st')"
proof (cases "findIndex (\<lambda>t. bossName t = bossName imp) (m_tables st)")
  case None
  with assms(1) obtain i ids k where
    e: "ensureUniqueId P (usedIds st) (generated st) (table_id imp) = Some (i, ids, k)"
    and st': "st' = st\<lparr>m_tables := m_tables st @ [imp\<lparr>table_id := i\<rparr>], usedIds := ids, generated := k\<rparr>"
    by (auto simp: mergeTable_def split: option.splits)
  from ensureUniqueId_Some[OF e] have "i \<notin> set (usedIds st)" "ids = usedIds st @ [i]"
    by simp_all
  then show ?thesis
    using assms(2,3) by (auto simp: st')
next
  case (Some idx)
  then have idx: "idx < length (m_tables st)" using findIndex_Some by blast
  from Some assms(1) have st': "st' = mergeInto P idx imp st"
    by (simp add: mergeTable_def)
  from mergeInto_result[OF idx, of P imp] obtain t' where
    t': "m_tables st' = (m_tables st)[idx := t']" "table_id t' = table_id (m_tables st ! idx)"
      "usedIds st' = usedIds st"
    unfolding st' by blast
  have "map table_id (m_tables st') = map table_id (m_tables st)"
    unfolding t'(1) by (rule map_update_same[OF idx t'(2)])
  then show ?thesis using assms(2,3) t'(3) by simp
qed

lemma mergeTable_returns:
  assumes "\<forall>ids k. \<exists>j \<ge> k. generateTableId P j \<notin> set ids"
  shows "\<exists>st'. mergeTable P imp st = Some st'"
proof (cases "findIndex (\<lambda>t. bossName t = bossName imp) (m_tables st)")
  case None
  obtain r where "ensureUniqueId P (usedIds st) (generated st) (table_id imp) = Some r"
    using ensureUniqueId_returns[of "generated st" P "usedIds st" "table_id imp"] assms by blast
  with None show ?thesis by (cases r) (auto simp: mergeTable_def)
next
  case (Some idx)
  then show ?thesis by (simp add: mergeTable_def)
qed

lemma mergeAll_invariant:
  assumes "mergeAll P imps st = Some st'"
    and "\<forall>t \<in> set imps. tableInvariant t" and "\<forall>t \<in> set (m_tables st). tableInvariant t"
  shows "\<forall>t \<in> set (m_tables st'). tableInvariant t"
  using assms
proof (induction imps arbitrary: st)
  case Nil
  then show ?case by simp
next
  case (Cons imp imps)
  from Cons.prems(1) obtain st1 where
    s1: "mergeTable P imp st = Some st1" and s2: "mergeAll P imps st1 = Some st'"
    by (auto split: option.splits)
  have "\<forall>t \<in> set (m_tables st1). tableInvariant t"
    using mergeTable_invariant[OF s1] Cons.prems(2,3) by simp
  with Cons.IH[OF s2] Cons.prems(2) show ?case by simp
qed

lemma mergeAll_conflicts:
  assumes "mergeAll P imps st = Some st'"
    and "\<forall>c \<in> set (m_conflicts st). conflictConsistent c"
  shows "\<forall>c \<in> set (m_conflicts st'). conflictConsistent c"
  using assms
proof (induction imps arbitrary: st)
  case Nil
  then show ?case by simp
next
  case (Cons imp imps)
  from Cons.prems(1) obtain st1 where
    s1: "mergeTable P imp st = Some st1" and s2: "mergeAll P imps st1 = Some st'"
    by (auto split: option.splits)
  from Cons.IH[OF s2 mergeTable_conflicts[OF s1 Cons.prems(2)]] show ?case .
qed

lemma mergeAll_ids:
  assumes "mergeAll P imps st = Some st'"
    and "distinct (map table_id (m_tables st))"
    and "set (map table_id (m_tables st)) \<subseteq> set (usedIds st)"
  shows "distinct (map table_id (m_tables st'))"
  using assms
proof (induction imps arbitrary: st)
  case Nil
  then show ?case by simp
next
  case (Cons imp imps)
  from Cons.prems(1) obtain st1 where
    s1: "mergeTable P imp st = Some st1" and s2: "mergeAll P imps st1 = Some st'"
    by (auto split: option.splits)
  from mergeTable_ids[OF s1 Cons.prems(2,3)] Cons.IH[OF s2] show ?case by blast
qed

lemma mergeAll_returns:
  assumes "\<forall>ids k. \<exists>j \<ge> k. generateTableId P j \<notin> set ids"
  shows "\<exists>st'. mergeAll P imps st = Some st'"
proof (induction imps arbitrary: st)
  case Nil
  then show ?case by simp
next
  case (Cons imp imps)
  obtain st1 where "mergeTable P imp st = Some st1"
    using mergeTable_returns[OF assms] by blast
  with Cons.IH[of st1] show ?case by simp
qed

lemma buildMergePreview_Some:
  assumes "buildMergePreview P existing imported = Some pv"
  obtains st where
    "mergeAll P imported \<lparr>m_tables = existing, m_conflicts = [], m_choices = Map.empty,
        usedIds = map table_id existing, generated = 0\<rparr> = Some st"
    "pv = \<lparr>mergedTables = m_tables st, conflicts = m_conflicts st, defaultChoices = m_choices st\<rparr>"
  using assms
  by (auto simp: buildMergePreview_def Let_def map_cloneTable split: option.splits)

lemma tableInvariant_replace_channel:
  assumes "tableInvariant t" "ci < length (channels t)" "channel x = channel (channels t ! ci)"
  shows "tableInvariant (t\<lparr>channels := (channels t)[ci := x]\<rparr>)"
proof -
  have "map channel ((channels t)[ci := x]) = map channel (channels t)"
    by (rule map_update_same[OF assms(2,3)])
  then show ?thesis using assms(1) by (simp add: tableInvariant_def)
qed

lemma applyConflict_invariant:
  assumes "conflictConsistent conflict" "\<forall>t \<in> set result. tableInvariant t"
  shows "\<forall>t \<in> set (applyConflict choices tableIndexById conflict result). tableInvariant t"
proof (cases "mapGet tableIndexById (tableId conflict)")
  case None
  then show ?thesis using assms(2) by (simp add: applyConflict_def Let_def)
next
  case (Some idx)
  let ?table = "result ! idx"
  show ?thesis
  proof (cases "findIndex (\<lambda>c. channel c = conflict_channel conflict) (channels ?table)")
    case None
    with Some show ?thesis using assms(2) by (simp add: applyConflict_def Let_def)
  next
    case (Some ci)
    let ?x = "if (case choices (conflict_id conflict) of Some c \<Rightarrow> c | None \<Rightarrow> Mine) = Theirs
              then cloneChannel (theirs conflict) else cloneChannel (mine conflict)"
    have res: "applyConflict choices tableIndexById conflict result
                 = result[idx := ?table\<lparr>channels := (channels ?table)[ci := ?x]\<rparr>]"
      using Some \<open>mapGet tableIndexById (tableId conflict) = Some idx\<close>
      by (simp add: applyConflict_def Let_def)
    show ?thesis
    proof (cases "idx < length result")
      case True
      then have inv: "tableInvariant ?table" using assms(2) by simp
      from findIndex_Some[OF Some] have ci: "ci < length (channels ?table)"
        and at: "channel (channels ?table ! ci) = conflict_channel conflict" by simp_all
      have "channel ?x = channel (channels ?table ! ci)"
        using assms(1) at by (simp add: conflictConsistent_def cloneChannel_id)
      from tableInvariant_replace_channel[OF inv ci this]
      show ?thesis
        unfolding res using assms(2) set_list_update_subset[of result idx] by blast
    next
      case False
      then have "result[idx := ?table\<lparr>channels := (channels ?table)[ci := ?x]\<rparr>] = result"
        by (intro list_update_beyond) simp
      then show ?thesis unfolding res using assms(2) by (simp only:)
    qed
  qed
qed

lemma fold_applyConflict_invariant:
  assumes "\<forall>c \<in> set cs. conflictConsistent c" "\<forall>t \<in> set result. tableInvariant t"
  shows "\<forall>t \<in> set (fold (applyConflict choices tableIndexById) cs result). tableInvariant t"
  using assms
proof (induction cs arbitrary: result)
  case Nil
  then show ?case by simp
next
  case (Cons c cs)
  have "\<forall>t \<in> set (applyConflict choices tableIndexById c result). tableInvariant t"
    by (rule applyConflict_invariant) (use Cons.prems in simp_all)
  with Cons.IH Cons.prems(1) show ?case by simp
qed

lemma applyMergeChoices_invariant:
  assumes "\<forall>c \<in> set (conflicts pv). conflictConsistent c"
    and "\<forall>t \<in> set (mergedTables pv). tableInvariant t"
  shows "\<forall>t \<in> set (applyMergeChoices pv choices). tableInvariant t"
  unfolding applyMergeChoices_def Let_def map_cloneTable
  by (rule fold_applyConflict_invariant[OF assms])

lemma buildMergePreview_invariant:
  assumes "buildMergePreview P existing imported = Some pv"
    and "\<forall>t \<in> set existing. tableInvariant t" and "\<forall>t \<in> set imported. tableInvariant t"
  shows "(\<forall>t \<in> set (mergedTables pv). tableInvariant t) \<and>
         (\<forall>c \<in> set (conflicts pv). conflictConsistent c)"
proof -
  from assms(1) obtain st where
    run: "mergeAll P imported \<lparr>m_tables = existing, m_conflicts = [], m_choices = Map.empty,
        usedIds = map table_id existing, generated = 0\<rparr> = Some st"
    and pv: "pv = \<lparr>mergedTables = m_tables st, conflicts = m_conflicts st,
        defaultChoices = m_choices st\<rparr>"
    by (rule buildMergePreview_Some)
  have "\<forall>t \<in> set (m_tables st). tableInvariant t"
    using mergeAll_invariant[OF run assms(3)] assms(2) by simp
  moreover have "\<forall>c \<in> set (m_conflicts st). conflictConsistent c"
    using mergeAll_conflicts[OF run] by simp
  ultimately show ?thesis by (simp add: pv)
qed

lemma buildMergePreview_ids:
  assumes "buildMergePreview P existing imported = Some pv"
    and "distinct (map table_id existing)"
  shows "distinct (map table_id (mergedTables pv))"
proof -
  from assms(1) obtain st where
    run: "mergeAll P imported \<lparr>m_tables = existing, m_conflicts = [], m_choices = Map.empty,
        usedIds = map table_id existing, generated = 0\<rparr> = Some st"
    and pv: "pv = \<lparr>mergedTables = m_tables st, conflicts = m_conflicts st,
        defaultChoices = m_choices st\<rparr>"
    by (rule buildMergePreview_Some)
  have "distinct (map table_id (m_tables st))"
    using mergeAll_ids[OF run] assms(2) by simp
  then show ?thesis by (simp add: pv)
qed

lemma buildMergePreview_returns:
  assumes "\<forall>ids k. \<exists>j \<ge> k. generateTableId P j \<notin> set ids"
  shows "\<exists>pv. buildMergePreview P existing imported = Some pv"
proof -
  obtain st where "mergeAll P imported \<lparr>m_tables = existing, m_conflicts = [],
      m_choices = Map.empty, usedIds = map table_id existing, generated = 0\<rparr> = Some st"
    using mergeAll_returns[OF assms] by blast
  then show ?thesis by (simp add: buildMergePreview_def Let_def map_cloneTable)
qed

lemmas sample_defs = localBalrog_def importedBalrog_def importedZakum_def importedPianus_def
  secondBalrog_def forgedPreview_def killedChannel_def emptyChannel_def

lemma forged_result:
  "applyMergeChoices forgedPreview Map.empty
     = [localBalrog\<lparr>channels := [emptyChannel 1, emptyChannel 2, killedChannel 5 100]\<rparr>]"
  by (simp add: applyMergeChoices_def cloneTable_id forgedPreview_def mapFromEntries_def
      applyConflict_def mapGet_def localBalrog_def killedChannel_def emptyChannel_def
      cloneChannel_id Let_def)

lemma wf_localBalrog: "wellFormed localBalrog"
  by (simp add: wellFormed_def tableInvariant_def sample_defs)

lemmas merge_eval = buildMergePreview_def cloneTable_id mergeTable_def byChannelOf_def
  mapFromEntries_def mergeChannel_def channelOrEmpty_def mapGet_def hasTimer_def cloneChannel_id
  timerSignature_def timerPart_def numberToString_def isSafeInteger_def showInt_def showNat.simps
  digitChar_def upt_rec mergeInto_def Let_def clampChannelsCount_def MIN_CHANNELS_def
  MAX_CHANNELS_def

lemma preview_balrog:
  "buildMergePreview plainHost [localBalrog] [importedBalrog] =
     Some \<lparr>mergedTables =
             [localBalrog\<lparr>channelsCount := 4,
                channels := [emptyChannel 1, emptyChannel 2, killedChannel 3 100, emptyChannel 4]\<rparr>],
           conflicts =
             [\<lparr>conflict_id = ''a:3:0'', conflict_bossName = ''Balrog'', tableId = ''a'',
               conflict_channel = 3, mine = killedChannel 3 100, theirs = killedChannel 3 200\<rparr>],
           defaultChoices = [''a:3:0'' \<mapsto> Mine]\<rparr>"
  by (simp add: merge_eval sample_defs)

lemma inv_localBalrog: "tableInvariant localBalrog"
  by (simp add: tableInvariant_def sample_defs)

lemma inv_importedBalrog: "tableInvariant importedBalrog"
  by (simp add: tableInvariant_def sample_defs)

lemma plainHost_generator:
  "\<exists>j \<ge> k. generateTableId plainHost j \<notin> set ids"
proof -
  let ?j = "k + sum_list (map length ids)"
  have "generateTableId plainHost ?j \<notin> set ids"
  proof
    assume "generateTableId plainHost ?j \<in> set ids"
    then have "length (generateTableId plainHost ?j) \<le> sum_list (map length ids)"
      by (intro member_le_sum_list) auto
    then show False by (simp add: plainHost_def demoPlatform_def)
  qed
  then show ?thesis by (intro exI[of _ ?j]) simp
qed

section \<open>Merging a table into itself\<close>

lemma emptyChannel_eq:
  assumes "\<not> hasTimer c" "channel c = n"
  shows "emptyChannel n = c"
  using assms by (cases c) (simp add: emptyChannel_def hasTimer_def)

lemma mergeChannel_same:
  assumes "channelOrEmpty mineBy k = c" "channelOrEmpty theirsBy k = c" "channel c = real k"
  shows "mergeChannel P e mineBy theirsBy k (nc, cs, dc) = (nc @ [c], cs, dc)"
  using assms emptyChannel_eq[of c "real k"]
  by (simp add: mergeChannel_def Let_def cloneChannel_id)

lemma fold_mergeChannel_self:
  assumes "tableInvariant t" "\<forall>k \<in> set ks. 1 \<le> k \<and> k \<le> length (channels t)"
  shows "fold (mergeChannel P e (byChannelOf (channels t)) (byChannelOf (channels t))) ks
           (nc, cs, dc) = (nc @ map (\<lambda>k. channels t ! (k - 1)) ks, cs, dc)"
  using assms(2)
proof (induction ks arbitrary: nc)
  case Nil
  then show ?case by simp
next
  case (Cons k ks)
  then have k: "1 \<le> k \<and> k \<le> length (channels t)" by simp
  then have side: "channelOrEmpty (byChannelOf (channels t)) k = channels t ! (k - 1)"
    by (simp add: channelOrEmpty_invariant[OF assms(1)])
  have "channel (channels t ! (k - 1)) = real k"
    using channel_channelOrEmpty[of "channels t" k] by (simp only: side)
  from mergeChannel_same[OF side side this]
  have "mergeChannel P e (byChannelOf (channels t)) (byChannelOf (channels t)) k (nc, cs, dc)
          = (nc @ [channels t ! (k - 1)], cs, dc)" .
  then show ?case using Cons.IH[of "nc @ [channels t ! (k - 1)]"] Cons.prems by simp
qed

lemma map_nth_shifted: "map (\<lambda>k. xs ! (k - 1)) [1 ..< Suc (length xs)] = xs"
proof -
  have "map (\<lambda>k. xs ! (k - 1)) (map Suc [0 ..< length xs]) = map (\<lambda>i. xs ! i) [0 ..< length xs]"
    by simp
  then show ?thesis by (simp only: map_Suc_upt map_nth One_nat_def)
qed

lemma invariant_count:
  assumes "tableInvariant t"
  shows "channelsCount t = real (length (channels t))"
    "1 \<le> length (channels t)" "length (channels t) \<le> 50"
  using assms by (simp_all add: tableInvariant_def)

lemma mergeInto_self:
  assumes "tableInvariant t" "i < length (m_tables st)" "m_tables st ! i = t"
  shows "mergeInto P i t st = st"
proof -
  let ?n = "length (channels t)"
  note c = invariant_count[OF assms(1)]
  have mc: "clampChannelsCount (max (channelsCount t) (channelsCount t)) = real ?n"
    using clamp_fixed[OF c(2,3)] by (simp add: c(1))
  have f: "fold (mergeChannel P t (byChannelOf (channels t)) (byChannelOf (channels t)))
             [1 ..< Suc ?n] ([], m_conflicts st, m_choices st)
           = (channels t, m_conflicts st, m_choices st)"
    using fold_mergeChannel_self[OF assms(1), of "[1 ..< Suc ?n]" P t "[]"] map_nth_shifted[of "channels t"]
    by (simp del: upt_Suc)
  have mc2: "clampChannelsCount (channelsCount t) = real ?n"
    using mc by simp
  have "t\<lparr>channelsCount := real ?n, channels := channels t\<rparr> = t"
    by (simp add: c(1)[symmetric])
  moreover have "(m_tables st)[i := t] = m_tables st"
    using list_update_id[of "m_tables st" i] by (simp only: assms(3))
  ultimately show ?thesis
    using assms(3) f by (simp add: mergeInto_def Let_def mc2 del: upt_Suc)
qed

lemma findIndex_by_name:
  assumes "distinct (map bossName ts)" "t \<in> set ts"
  shows "\<exists>i. findIndex (\<lambda>x. bossName x = bossName t) ts = Some i \<and> i < length ts \<and> ts ! i = t"
proof (cases "findIndex (\<lambda>x. bossName x = bossName t) ts")
  case None
  with assms(2) show ?thesis using findIndex_None by fastforce
next
  case (Some i)
  from findIndex_Some[OF Some] have i: "i < length ts" "bossName (ts ! i) = bossName t"
    by simp_all
  have "inj_on bossName (set ts)" using assms(1) by (simp add: distinct_map)
  then have "ts ! i = t" using i assms(2) by (auto dest: inj_onD)
  with Some i(1) show ?thesis by simp
qed

lemma mergeTable_self:
  assumes "distinct (map bossName (m_tables st))" "t \<in> set (m_tables st)" "tableInvariant t"
  shows "mergeTable P t st = Some st"
proof -
  obtain i where "findIndex (\<lambda>x. bossName x = bossName t) (m_tables st) = Some i"
    "i < length (m_tables st)" "m_tables st ! i = t"
    using findIndex_by_name[OF assms(1,2)] by blast
  then show ?thesis
    by (simp add: mergeTable_def mergeInto_self[OF assms(3)])
qed

lemma mergeAll_self:
  assumes "distinct (map bossName (m_tables st))" "set imps \<subseteq> set (m_tables st)"
    "\<forall>t \<in> set imps. tableInvariant t"
  shows "mergeAll P imps st = Some st"
  using assms(2,3)
proof (induction imps)
  case Nil
  then show ?case by simp
next
  case (Cons t imps)
  then have "mergeTable P t st = Some st"
    using mergeTable_self[OF assms(1)] by simp
  with Cons show ?case by simp
qed

lemma wf_secondBalrog: "wellFormed secondBalrog"
  by (simp add: wellFormed_def tableInvariant_def sample_defs)

lemma wf_importedZakum: "wellFormed importedZakum"
  by (simp add: wellFormed_def tableInvariant_def sample_defs)

section \<open>One conflict among empty channels\<close>

lemma mergeChannel_both_empty:
  assumes "\<not> hasTimer (channelOrEmpty mineBy k)" "\<not> hasTimer (channelOrEmpty theirsBy k)"
  shows "mergeChannel P e mineBy theirsBy k (nc, cs, dc) = (nc @ [emptyChannel (real k)], cs, dc)"
  using assms by (simp add: mergeChannel_def Let_def)

lemma fold_mergeChannel_empty:
  assumes "\<forall>k \<in> set ks. \<not> hasTimer (channelOrEmpty mineBy k) \<and>
                        \<not> hasTimer (channelOrEmpty theirsBy k)"
  shows "fold (mergeChannel P e mineBy theirsBy) ks (nc, cs, dc)
           = (nc @ map (\<lambda>k. emptyChannel (real k)) ks, cs, dc)"
  using assms
proof (induction ks arbitrary: nc)
  case Nil
  then show ?case by simp
next
  case (Cons k ks)
  then show ?case
    using Cons.IH[of "nc @ [emptyChannel (real k)]"]
    by (simp add: mergeChannel_both_empty)
qed

lemma hasTimer_emptyChannel: "\<not> hasTimer (emptyChannel n)"
  by (simp add: hasTimer_def emptyChannel_def)

lemma side_empty:
  assumes "tableInvariant t" "\<forall>i < length (channels t). i \<noteq> 2 \<longrightarrow> \<not> hasTimer (channels t ! i)"
    "k \<noteq> 3"
  shows "\<not> hasTimer (channelOrEmpty (byChannelOf (channels t)) k)"
proof (cases "1 \<le> k \<and> k \<le> length (channels t)")
  case True
  then have "k - 1 < length (channels t)" "k - 1 \<noteq> 2" using assms(3) by linarith+
  then show ?thesis
    using assms(2) True by (simp add: channelOrEmpty_invariant[OF assms(1)])
next
  case False
  then have "channelOrEmpty (byChannelOf (channels t)) k = emptyChannel (real k)"
    using channelOrEmpty_invariant[OF assms(1), of k] by auto
  then show ?thesis by (simp add: hasTimer_emptyChannel)
qed

lemma side_third:
  assumes "tableInvariant t" "3 \<le> length (channels t)"
  shows "channelOrEmpty (byChannelOf (channels t)) 3 = channels t ! 2"
  using assms(2) by (simp add: channelOrEmpty_invariant[OF assms(1)] eval_nat_numeral)

lemma signature_100_200:
  "timerSignature P (killedChannel 3 100) \<noteq> timerSignature P (killedChannel 3 200)"
  by (simp add: timerSignature_def timerPart_def killedChannel_def numberToString_def
      isSafeInteger_def showInt_def showNat.simps digitChar_def)

lemma mergeChannel_third:
  assumes "channelOrEmpty mineBy 3 = killedChannel 3 100"
    "channelOrEmpty theirsBy 3 = killedChannel 3 200"
  shows "mergeChannel P e mineBy theirsBy 3 (nc, [], dc)
     = (nc @ [killedChannel 3 100],
        [\<lparr>conflict_id = table_id e @ '':3:0'', conflict_bossName = bossName e,
          tableId = table_id e, conflict_channel = 3,
          mine = killedChannel 3 100, theirs = killedChannel 3 200\<rparr>],
        dc(table_id e @ '':3:0'' \<mapsto> Mine))"
  using signature_100_200[of P]
  by (simp add: mergeChannel_def Let_def assms cloneChannel_id hasTimer_def killedChannel_def
      showNat.simps digitChar_def)

lemma upt_split_third:
  assumes "3 \<le> n"
  shows "[1 ..< Suc n] = [1, 2] @ [3] @ [4 ..< Suc n]"
proof -
  have "[1 ..< Suc n] = 1 # [Suc 1 ..< Suc n]"
    using assms by (intro upt_conv_Cons) simp
  also have "[Suc 1 ..< Suc n] = Suc 1 # [Suc (Suc 1) ..< Suc n]"
    using assms by (intro upt_conv_Cons) simp
  also have "[Suc (Suc 1) ..< Suc n] = Suc (Suc 1) # [Suc (Suc (Suc 1)) ..< Suc n]"
    using assms by (intro upt_conv_Cons) simp
  finally show ?thesis by (simp del: upt_Suc add: eval_nat_numeral)
qed

lemma findIndex_third:
  "findIndex (\<lambda>c. channel c = 3) ([emptyChannel 1, emptyChannel 2, killedChannel 3 t] @ rest)
     = Some 2"
  by (simp add: emptyChannel_def killedChannel_def)

lemma sample_rest:
  "\<forall>i < length (channels localBalrog). i \<noteq> 2 \<longrightarrow> \<not> hasTimer (channels localBalrog ! i)"
  "\<forall>i < length (channels importedBalrog). i \<noteq> 2 \<longrightarrow> \<not> hasTimer (channels importedBalrog ! i)"
  by (auto simp: sample_defs hasTimer_def nth_Cons split: nat.splits)

section \<open>The envelope\<close>

lemma parseEnvelope_error:
  "parseEnvelope P input = Inl e \<Longrightarrow> e = InvalidFormat"
  by (auto simp: parseEnvelope_def decodeText_def Let_def
      split: sum.splits option.splits if_splits)

lemma importParsed_version:
  "(importParsed P parsed k = Inl UnsupportedVersion)
     = (getProp parsed ''version'' \<noteq> JNum (Fin 1))"
  by (auto simp: importParsed_def BACKUP_VERSION_def case_prod_beta Let_def
      split: jsval.splits option.splits if_splits)

lemma parse_textNewer: "parseEnvelope sampleHost textNewer = Inr envelopeNewer"
  by (simp add: parseEnvelope_def decodeText_def Let_def sampleHost_def demoPlatform_def
      textNewer_def textNoZone_def textOfBalrog_def jsonString_def dquote_def trim_def
      isWhiteSpace_def startsWith_def BACKUP_PREFIX_GZ_def BACKUP_PREFIX_def isObject_def
      envelopeNewer_def)

section \<open>The warnings of an import\<close>

lemma tableWarning_skipped: "tableWarning (''Skipped table #'' @ rest)"
  by (simp add: tableWarning_def startsWith_def)

lemma tableWarning_table: "tableWarning (''Table '' @ rest)"
  by (simp add: tableWarning_def startsWith_def)

lemma warnClamped_pushes:
  "\<exists>ws. pushed (warnClamped P table name s) = pushed s @ ws \<and> (\<forall>w \<in> set ws. tableWarning w)"
  using tableWarning_table
  by (auto simp: warnClamped_def Let_def push_def clampWarning_def
      split: jsval.splits jsnum.splits)

lemma warnRebuilt_pushes:
  "\<exists>ws. pushed (warnRebuilt P table name s) = pushed s @ ws \<and> (\<forall>w \<in> set ws. tableWarning w)"
  using tableWarning_table
  by (auto simp: warnRebuilt_def push_def rebuiltWarning_def)

lemma normalizeTable_pushes:
  "\<exists>ws. pushed (snd (normalizeTable P table index s)) = pushed s @ ws \<and>
        (\<forall>w \<in> set ws. tableWarning w)"
proof (cases "accepts table")
  case False
  then have "pushed (snd (normalizeTable P table index s)) = pushed s @
      [''Skipped table #'' @ showNat (index + 1) @ '': not an object.''] \<or>
    pushed (snd (normalizeTable P table index s)) = pushed s @
      [''Skipped table #'' @ showNat (index + 1) @ '': missing bossName.'']"
    by (auto simp: normalizeTable_def accepts_def push_def split: jsval.splits)
  then show ?thesis using tableWarning_skipped by auto
next
  case True
  then obtain name where obj: "isObject table" and name: "getProp table ''bossName'' = JStr name"
    and nb: "length (trim name) \<noteq> 0"
    by (auto simp: accepts_def split: jsval.splits)
  obtain ws1 where w1: "pushed (warnClamped P table name s) = pushed s @ ws1"
    "\<forall>w \<in> set ws1. tableWarning w"
    using warnClamped_pushes by blast
  obtain ws2 where w2: "pushed (warnRebuilt P table name (warnClamped P table name s))
      = pushed (warnClamped P table name s) @ ws2" "\<forall>w \<in> set ws2. tableWarning w"
    using warnRebuilt_pushes by blast
  have "pushed (snd (normalizeTable P table index s)) = pushed s @ (ws1 @ ws2)"
    using normalizeTable_pushed[OF obj name nb, of P index s] w1(1) w2(1) by simp
  moreover have "\<forall>w \<in> set (ws1 @ ws2). tableWarning w" using w1(2) w2(2) by auto
  ultimately show ?thesis by blast
qed

lemma normalizeTables_pushes:
  "\<exists>ws. pushed (snd (normalizeTables P ts index s)) = pushed s @ ws \<and>
        (\<forall>w \<in> set ws. tableWarning w)"
proof (induction ts arbitrary: index s)
  case Nil
  then show ?case by simp
next
  case (Cons t ts)
  obtain ws1 where w1: "pushed (snd (normalizeTable P t index s)) = pushed s @ ws1"
    "\<forall>w \<in> set ws1. tableWarning w"
    using normalizeTable_pushes by blast
  obtain ws2 where w2: "pushed (snd (normalizeTables P ts (Suc index) (snd (normalizeTable P t index s))))
      = pushed (snd (normalizeTable P t index s)) @ ws2" "\<forall>w \<in> set ws2. tableWarning w"
    using Cons.IH by blast
  have "pushed (snd (normalizeTables P (t # ts) index s)) = pushed s @ (ws1 @ ws2)"
    using w1(1) w2(1) by (simp add: case_prod_beta Let_def)
  moreover have "\<forall>w \<in> set (ws1 @ ws2). tableWarning w" using w1(2) w2(2) by auto
  ultimately show ?case by blast
qed

lemma importParsed_Inr:
  assumes "importParsed P parsed k = Inr r"
  shows "\<exists>ws0 ws.
      (if getProp parsed ''timezone'' \<noteq> JStr (APP_TIME_ZONE P)
       then map_option (\<lambda>tz. [timezoneWarning P tz]) (jsString P (getProp parsed ''timezone''))
       else Some []) = Some ws0 \<and>
      warnings r = ws0 @ ws \<and> (\<forall>w \<in> set ws. tableWarning w) \<and>
      timezone (payload r) =
        (case getProp parsed ''timezone'' of JStr tz \<Rightarrow> tz | _ \<Rightarrow> APP_TIME_ZONE P)"
proof -
  from assms obtain rawTables where tabs: "getProp parsed ''tables'' = JArr rawTables"
    and ver: "getProp parsed ''version'' = JNum (Fin BACKUP_VERSION)"
    by (auto simp: importParsed_def split: if_splits jsval.splits)
  from assms tabs ver obtain ws0 where
    ws0: "(if getProp parsed ''timezone'' \<noteq> JStr (APP_TIME_ZONE P)
       then map_option (\<lambda>tz. [timezoneWarning P tz]) (jsString P (getProp parsed ''timezone''))
       else Some []) = Some ws0"
    by (auto simp: importParsed_def split: if_splits option.splits)
  let ?s1 = "snd (normalizeTables P rawTables 0 \<lparr>pushed = ws0, clock = k\<rparr>)"
  obtain ws where ws: "pushed ?s1 = ws0 @ ws" "\<forall>w \<in> set ws. tableWarning w"
    using normalizeTables_pushes[of P rawTables 0 "\<lparr>pushed = ws0, clock = k\<rparr>"] by auto
  from assms have "warnings r = pushed ?s1 \<and>
      timezone (payload r) =
        (case getProp parsed ''timezone'' of JStr tz \<Rightarrow> tz | _ \<Rightarrow> APP_TIME_ZONE P)"
    using ws0 tabs ver
    by (auto simp: importParsed_def case_prod_beta Let_def dateNow_def
        split: option.splits)
  with ws0 ws show ?thesis by (intro exI[of _ ws0] exI[of _ ws]) simp
qed

lemma timezoneWarning_starts: "startsWith (timezoneWarning P tz) ''Backup timezone is''"
  by (simp add: timezoneWarning_def startsWith_def)

lemma parse_textNoZone: "parseEnvelope sampleHost textNoZone = Inr envelopeNoZone"
  by (simp add: parseEnvelope_def decodeText_def Let_def sampleHost_def demoPlatform_def
      textNewer_def textNoZone_def textOfBalrog_def jsonString_def dquote_def trim_def
      isWhiteSpace_def startsWith_def BACKUP_PREFIX_GZ_def BACKUP_PREFIX_def isObject_def
      envelopeNoZone_def)

lemma import_textNoZone:
  "importState sampleHost textNoZone 0 =
     Inr \<lparr>payload = \<lparr>version = 1, storageVersion = ''boss-timer/v1'',
                      exportedAt = 1700000000000, timezone = ''Asia/Seoul'', tables = []\<rparr>,
          warnings = [''Backup timezone is '' @ dquote @ ''undefined'' @ dquote
                        @ '', your timezone is '' @ dquote @ ''Asia/Seoul'' @ dquote @ ''.'']\<rparr>"
  by (simp add: importState_def parse_textNoZone)
    (simp add: importParsed_def envelopeNoZone_def getProp_def mapGet_def mapFromEntries_def
      BACKUP_VERSION_def STORAGE_VERSION_def sampleHost_def demoPlatform_def
      timezoneWarning_def toEpoch_def dateNow_def)

section \<open>Export followed by import\<close>

lemma binaryChunks_eq: "binaryChunks bytes i binary = binary @ drop i bytes"
proof (induction bytes i binary rule: binaryChunks.induct)
  case (1 bytes i binary)
  show ?case
  proof (cases "i < length bytes")
    case True
    have "take chunkSize (drop i bytes) @ drop (i + chunkSize) bytes = drop i bytes"
      by (metis add.commute append_take_drop_id drop_drop)
    with 1[OF True] True show ?thesis
      by (subst binaryChunks.simps) simp
  next
    case False
    then show ?thesis by (subst binaryChunks.simps) simp
  qed
qed

lemma bytesToBase64_eq: "bytesToBase64 P bytes = btoa P bytes"
  by (simp add: bytesToBase64_def binaryChunks_eq)

lemma base64ToBytes_eq: "base64ToBytes P base64 = atob P base64"
  by (simp add: base64ToBytes_def split: option.splits)

lemma trim_prefixed:
  assumes "b = [] \<or> \<not> isWhiteSpace (last b)"
  shows "trim (BACKUP_PREFIX_GZ @ b) = BACKUP_PREFIX_GZ @ b"
    "trim (BACKUP_PREFIX @ b) = BACKUP_PREFIX @ b"
proof -
  have tail: "dropWhile isWhiteSpace (rev (p @ b)) = rev (p @ b)"
    if "p \<noteq> []" "\<not> isWhiteSpace (last p)" for p
  proof (cases "b = []")
    case True
    with that show ?thesis by (simp add: dropWhile_eq_self_iff hd_rev)
  next
    case False
    with assms show ?thesis by (simp add: dropWhile_eq_self_iff hd_rev)
  qed
  have gz: "\<not> isWhiteSpace (last BACKUP_PREFIX_GZ)" "\<not> isWhiteSpace (hd BACKUP_PREFIX_GZ)"
    "BACKUP_PREFIX_GZ \<noteq> []"
    by (simp_all add: BACKUP_PREFIX_GZ_def isWhiteSpace_def)
  have v1: "\<not> isWhiteSpace (last BACKUP_PREFIX)" "\<not> isWhiteSpace (hd BACKUP_PREFIX)"
    "BACKUP_PREFIX \<noteq> []"
    by (simp_all add: BACKUP_PREFIX_def isWhiteSpace_def)
  have "dropWhile isWhiteSpace (BACKUP_PREFIX_GZ @ b) = BACKUP_PREFIX_GZ @ b"
    using gz by (simp add: dropWhile_eq_self_iff)
  then show "trim (BACKUP_PREFIX_GZ @ b) = BACKUP_PREFIX_GZ @ b"
    using tail[OF gz(3) gz(1)] by (simp add: trim_def)
  have "dropWhile isWhiteSpace (BACKUP_PREFIX @ b) = BACKUP_PREFIX @ b"
    using v1 by (simp add: dropWhile_eq_self_iff)
  then show "trim (BACKUP_PREFIX @ b) = BACKUP_PREFIX @ b"
    using tail[OF v1(3) v1(1)] by (simp add: trim_def)
qed

lemma startsWith_prefixes:
  "startsWith (BACKUP_PREFIX_GZ @ b) BACKUP_PREFIX_GZ"
  "\<not> startsWith (BACKUP_PREFIX @ b) BACKUP_PREFIX_GZ"
  "startsWith (BACKUP_PREFIX @ b) BACKUP_PREFIX"
  by (simp_all add: startsWith_def BACKUP_PREFIX_GZ_def BACKUP_PREFIX_def)

lemma decodeText_gz:
  assumes "base64RoundTrips P z" "gunzip P z = Some bytes" "TextDecoder_decode P bytes = json"
  shows "decodeText P (BACKUP_PREFIX_GZ @ bytesToBase64 P z) = Inr json"
proof -
  from assms(1) have a: "atob P (btoa P z) = Some z"
    and e: "btoa P z = [] \<or> \<not> isWhiteSpace (last (btoa P z))"
    by (simp_all add: base64RoundTrips_def)
  have ne: "BACKUP_PREFIX_GZ @ btoa P z \<noteq> []" by (simp add: BACKUP_PREFIX_GZ_def)
  show ?thesis
    using ne
    by (simp add: decodeText_def Let_def bytesToBase64_eq trim_prefixed(1)[OF e]
        startsWith_prefixes base64ToBytes_eq a gunzipBytes_def assms(2,3))
qed

lemma decodeText_plain:
  assumes "base64RoundTrips P bytes" "TextDecoder_decode P bytes = json"
  shows "decodeText P (BACKUP_PREFIX @ bytesToBase64 P bytes) = Inr json"
proof -
  from assms(1) have a: "atob P (btoa P bytes) = Some bytes"
    and e: "btoa P bytes = [] \<or> \<not> isWhiteSpace (last (btoa P bytes))"
    by (simp_all add: base64RoundTrips_def)
  have ne: "BACKUP_PREFIX @ btoa P bytes \<noteq> []" by (simp add: BACKUP_PREFIX_def)
  show ?thesis
    using ne
    by (simp add: decodeText_def Let_def bytesToBase64_eq trim_prefixed(2)[OF e]
        startsWith_prefixes base64ToBytes_eq a decodeBase64_def assms(2))
qed

lemma decodeText_exportState:
  assumes "hostRoundTrips P (payloadToJson (exportPayload P ts k))"
  shows "decodeText P (exportState P ts k)
           = Inr (JSON_stringify P (payloadToJson (exportPayload P ts k)))"
proof -
  let ?json = "JSON_stringify P (payloadToJson (exportPayload P ts k))"
  let ?bytes = "TextEncoder_encode P ?json"
  from assms have dec: "TextDecoder_decode P ?bytes = ?json"
    by (simp add: hostRoundTrips_def Let_def)
  show ?thesis
  proof (cases "gzip P ?bytes")
    case None
    with assms have "base64RoundTrips P ?bytes" by (simp add: hostRoundTrips_def Let_def)
    from decodeText_plain[OF this dec] None show ?thesis
      by (simp add: exportState_def Let_def gzipText_def encodeBase64_def)
  next
    case (Some z)
    show ?thesis
    proof (cases "length z > 0")
      case True
      with assms Some have "base64RoundTrips P z" "gunzip P z = Some ?bytes"
        by (simp_all add: hostRoundTrips_def Let_def)
      from decodeText_gz[OF this dec] Some True show ?thesis
        by (simp add: exportState_def Let_def gzipText_def)
    next
      case False
      with assms Some have "base64RoundTrips P ?bytes" by (simp add: hostRoundTrips_def Let_def)
      from decodeText_plain[OF this dec] Some False show ?thesis
        by (simp add: exportState_def Let_def gzipText_def encodeBase64_def)
    qed
  qed
qed

lemma parseEnvelope_exportState:
  assumes "hostRoundTrips P (payloadToJson (exportPayload P ts k))"
  shows "parseEnvelope P (exportState P ts k) = Inr (payloadToJson (exportPayload P ts k))"
proof -
  from assms have "JSON_parse P (JSON_stringify P (payloadToJson (exportPayload P ts k)))
      = Some (payloadToJson (exportPayload P ts k))"
    by (simp add: hostRoundTrips_def Let_def)
  then show ?thesis
    by (simp add: parseEnvelope_def decodeText_exportState[OF assms])
      (simp add: payloadToJson_def isObject_def)
qed

lemma normalizeChannel_channelToJson:
  assumes "channel c = real k" "1 \<le> k"
  shows "normalizeChannel (channelToJson c) = Some c"
proof -
  have "max 1 (real_of_int \<lfloor>real k\<rfloor>) = real k" using assms(2) by simp
  then show ?thesis
    using assms(1)
    by (cases "killedAt c"; cases "earliestRespawnAt c"; cases "latestRespawnAt c")
      (simp_all add: normalizeChannel_def channelToJson_def optionalNumber_def isObject_def
        getProp_def mapGet_def mapFromEntries_def toEpoch_def)
qed

lemma parsed_channelToJson:
  assumes "tableInvariant t"
  shows "List.map_filter normalizeChannel (map channelToJson (channels t)) = channels t"
proof (rule map_filter_all_Some, rule ballI)
  fix c assume "c \<in> set (channels t)"
  then obtain k where "1 \<le> k" "channel c = real k"
    using tableInvariant_numbered[OF assms] by blast
  then show "normalizeChannel (channelToJson c) = Some c"
    by (simp add: normalizeChannel_channelToJson)
qed

lemma normalizeTable_tableToJson:
  assumes "tableInvariant t" "length (table_id t) > 0" "length (trim (bossName t)) \<noteq> 0"
  shows "normalizeTable P (tableToJson t) index s = (Some t, s)"
proof (rule normalizeTable_represented[OF _ _ _ _ _ parsed_channelToJson[OF assms(1)] _ assms])
  show "isObject (tableToJson t)" by (simp add: tableToJson_def isObject_def)
  show "getProp (tableToJson t) ''id'' = JStr (table_id t)"
    by (simp add: tableToJson_def getProp_def mapGet_def mapFromEntries_def)
  show "getProp (tableToJson t) ''bossName'' = JStr (bossName t)"
    by (simp add: tableToJson_def getProp_def mapGet_def mapFromEntries_def)
  show "getProp (tableToJson t) ''channelsCount'' = JNum (Fin (channelsCount t))"
    by (simp add: tableToJson_def getProp_def mapGet_def mapFromEntries_def)
  show "getProp (tableToJson t) ''channels'' = JArr (map channelToJson (channels t))"
    by (simp add: tableToJson_def getProp_def mapGet_def mapFromEntries_def)
  show "getProp (tableToJson t) ''createdAt'' = JNum (Fin (createdAt t))"
    by (simp add: tableToJson_def getProp_def mapGet_def mapFromEntries_def)
qed

lemma normalizeTables_tableToJson:
  assumes "\<forall>t \<in> set ts. wellFormed t \<and> length (trim (bossName t)) \<noteq> 0"
  shows "normalizeTables P (map tableToJson ts) index s = (ts, s)"
  using assms
proof (induction ts arbitrary: index)
  case Nil
  then show ?case by simp
next
  case (Cons t ts)
  then have "normalizeTable P (tableToJson t) index s = (Some t, s)"
    by (intro normalizeTable_tableToJson) (simp_all add: wellFormed_def)
  with Cons show ?case by simp
qed

lemma importParsed_payload:
  assumes "\<forall>t \<in> set ts. wellFormed t \<and> length (trim (bossName t)) \<noteq> 0"
  shows "importParsed P (payloadToJson (exportPayload P ts k)) k'
           = Inr \<lparr>payload = exportPayload P ts k, warnings = []\<rparr>"
proof -
  let ?v = "payloadToJson (exportPayload P ts k)"
  have ver: "getProp ?v ''version'' = JNum (Fin BACKUP_VERSION)"
    and sv: "getProp ?v ''storageVersion'' = JStr STORAGE_VERSION"
    and ea: "getProp ?v ''exportedAt'' = JNum (Fin (real_of_int (Date_now P k)))"
    and tz: "getProp ?v ''timezone'' = JStr (APP_TIME_ZONE P)"
    and tb: "getProp ?v ''tables'' = JArr (map tableToJson ts)"
    by (simp_all add: payloadToJson_def exportPayload_def getProp_def mapGet_def
        mapFromEntries_def)
  have "importParsed P ?v k'
      = Inr \<lparr>payload = \<lparr>version = BACKUP_VERSION, storageVersion = STORAGE_VERSION,
                       exportedAt = real_of_int (Date_now P k), timezone = APP_TIME_ZONE P,
                       tables = ts\<rparr>,
             warnings = []\<rparr>"
    by (simp add: importParsed_def ver sv ea tz tb normalizeTables_tableToJson[OF assms]
        toEpoch_def STORAGE_VERSION_def)
  then show ?thesis by (simp add: exportPayload_def)
qed

lemmas host_defs = sampleHost_def demoPlatform_def

lemmas text_defs = textNewer_def textNoZone_def textOfBalrog_def textOfBlank_def
  jsonString_def dquote_def

lemma payload_balrog:
  "payloadToJson (exportPayload sampleHost [localBalrog] 0) = backupOfBalrog"
  by (simp add: payloadToJson_def exportPayload_def tableToJson_def channelToJson_def
      optionalNumber_def sample_defs host_defs BACKUP_VERSION_def STORAGE_VERSION_def
      backupOfBalrog_def)

lemma payload_blank:
  "payloadToJson (exportPayload sampleHost [blankName] 0) = backupOfBlank"
  by (simp add: payloadToJson_def exportPayload_def tableToJson_def channelToJson_def
      optionalNumber_def blankName_def emptyChannel_def host_defs BACKUP_VERSION_def
      STORAGE_VERSION_def backupOfBlank_def)

lemma differ_values: "backupOfBlank \<noteq> backupOfBalrog"
  by (simp add: backupOfBlank_def backupOfBalrog_def)

lemma host_balrog: "hostRoundTrips sampleHost backupOfBalrog"
  by (simp add: hostRoundTrips_def base64RoundTrips_def Let_def host_defs)
    (simp add: text_defs isWhiteSpace_def)

lemma host_blank: "hostRoundTrips sampleHost backupOfBlank"
  by (simp add: hostRoundTrips_def base64RoundTrips_def Let_def host_defs differ_values)
    (simp add: text_defs isWhiteSpace_def)

lemma wf_blankName: "wellFormed blankName"
  by (simp add: wellFormed_def tableInvariant_def blankName_def emptyChannel_def)


subsection \<open>The largest observed channel and the sample tables\<close>


lemma maxChannel_natural: "\<exists>k. maxChannel table = real k"
proof (cases "uniqueChannels table = []")
  case True
  then have "maxChannel table = real 0" by (simp add: maxChannel_def)
  then show ?thesis by blast
next
  case False
  then have "last (uniqueChannels table) \<in> set (parsedChannels table)"
    using uniqueChannels_subset[of table] last_in_set by blast
  then obtain k where "channel (last (uniqueChannels table)) = real k"
    using parsedChannels_number by blast
  with False show ?thesis by (auto simp: maxChannel_def)
qed

lemma clamp_natural: "clampChannelsCount (real k) = max 1 (min 50 (real k))"
  by (simp add: clampChannelsCount_def MIN_CHANNELS_def MAX_CHANNELS_def)

lemma maxChannel_none: "parsedChannels table = [] \<Longrightarrow> maxChannel table = 0"
  by (simp add: maxChannel_Max)


lemma props_rawZeroFive:
  "isObject rawZeroFive" "getProp rawZeroFive ''bossName'' = JStr ''Balrog''"
  "getProp rawZeroFive ''channelsCount'' = JNum (Fin 0)"
  "maxChannel rawZeroFive = 5"
  by (simp_all add: rawZeroFive_def value_defs maxChannel_def)

lemma props_rawMinusFive:
  "isObject rawMinusFive" "getProp rawMinusFive ''bossName'' = JStr ''Balrog''"
  "getProp rawMinusFive ''channelsCount'' = JNum (Fin (- 5))"
  "parsedChannels rawMinusFive = []"
  by (simp_all add: rawMinusFive_def value_defs)

lemma props_rawThousand:
  "isObject rawThousand" "getProp rawThousand ''bossName'' = JStr ''Balrog''"
  "getProp rawThousand ''channelsCount'' = JNum (Fin 1000)"
  by (simp_all add: rawThousand_def value_defs)

lemma nonblank_Balrog: "length (trim ''Balrog'') \<noteq> 0"
  by (simp add: trim_def isWhiteSpace_def)


subsection \<open>The conversion of the raw time zone\<close>


lemma importParsed_returns:
  assumes "getProp parsed ''version'' = JNum (Fin BACKUP_VERSION)"
    and "getProp parsed ''tables'' = JArr rawTables"
    and "getProp parsed ''timezone'' = JStr (APP_TIME_ZONE P)
         \<or> jsString P (getProp parsed ''timezone'') \<noteq> None"
  shows "\<exists>r. importParsed P parsed k = Inr r"
proof (cases "getProp parsed ''timezone'' = JStr (APP_TIME_ZONE P)")
  case True
  then show ?thesis
    by (simp add: importParsed_def assms(1,2) case_prod_beta Let_def split: option.splits)
next
  case False
  with assms(3) obtain tz where "jsString P (getProp parsed ''timezone'') = Some tz" by auto
  with False show ?thesis
    by (simp add: importParsed_def assms(1,2) case_prod_beta Let_def split: option.splits)
qed

lemma importParsed_TypeError:
  assumes "getProp parsed ''version'' = JNum (Fin BACKUP_VERSION)"
    and "getProp parsed ''tables'' = JArr rawTables"
    and "jsString P (getProp parsed ''timezone'') = None"
  shows "importParsed P parsed k = Inl TypeError"
proof -
  from assms(3) have "getProp parsed ''timezone'' \<noteq> JStr (APP_TIME_ZONE P)" by auto
  with assms show ?thesis by (simp add: importParsed_def)
qed

lemma jsString_primitive:
  "jsString P JUndef \<noteq> None" "jsString P JNull \<noteq> None" "jsString P (JBool b) \<noteq> None"
  "jsString P (JNum n) \<noteq> None" "jsString P (JStr s) \<noteq> None"
  by simp_all

lemma jsString_object:
  "(jsString P (JObj kvs) = None) = (''toString'' \<in> fst ` set kvs)"
  by simp

lemma parse_textBadZone: "parseEnvelope sampleHost textBadZone = Inr envelopeBadZone"
  by (simp add: parseEnvelope_def decodeText_def Let_def sampleHost_def demoPlatform_def
      text_defs textBadZone_def textNumberZone_def jsonString_def dquote_def trim_def
      isWhiteSpace_def startsWith_def BACKUP_PREFIX_GZ_def BACKUP_PREFIX_def isObject_def
      envelopeBadZone_def)

lemma parse_textNumberZone: "parseEnvelope sampleHost textNumberZone = Inr envelopeNumberZone"
  by (simp add: parseEnvelope_def decodeText_def Let_def sampleHost_def demoPlatform_def
      text_defs textBadZone_def textNumberZone_def jsonString_def dquote_def trim_def
      isWhiteSpace_def startsWith_def BACKUP_PREFIX_GZ_def BACKUP_PREFIX_def isObject_def
      envelopeNumberZone_def)

lemma props_envelopeBadZone:
  "getProp envelopeBadZone ''version'' = JNum (Fin BACKUP_VERSION)"
  "getProp envelopeBadZone ''tables'' = JArr []"
  "getProp envelopeBadZone ''timezone'' = JObj [(''toString'', JNum (Fin 1))]"
  by (simp_all add: envelopeBadZone_def getProp_def mapGet_def mapFromEntries_def
      BACKUP_VERSION_def)

lemma props_envelopeNumberZone:
  "getProp envelopeNumberZone ''version'' = JNum (Fin BACKUP_VERSION)"
  "getProp envelopeNumberZone ''tables'' = JArr []"
  "getProp envelopeNumberZone ''timezone'' = JNum (Fin 5)"
  by (simp_all add: envelopeNumberZone_def getProp_def mapGet_def mapFromEntries_def
      BACKUP_VERSION_def)

lemma numberToString_5: "numberToString P 5 = ''5''"
  by (simp add: numberToString_def isSafeInteger_def showInt_def showNat.simps digitChar_def)

section \<open>Claim C1: the final count and the observed channels\<close>

text \<open>
  C1, as stated, says that the final \<open>channelsCount\<close> is the clamp of the larger of the
  requested count and the highest observed channel number, and that every entry that
  survives deduplication appears in the output. The second half fails: the raw table
  \<open>rawBeyondLimit\<close> is accepted, its entry for channel 51 survives deduplication, the
  final count is 50 and the entry is not in the output.
\<close>

theorem observed_channel_beyond_limit_dropped:
  "accepts rawBeyondLimit \<and>
   \<lparr>channel = 51, killedAt = Some 200, earliestRespawnAt = None, latestRespawnAt = None\<rparr>
     \<in> set (uniqueChannels rawBeyondLimit) \<and>
   (case fst (normalizeTable plainHost rawBeyondLimit 0 freshState) of
      None \<Rightarrow> False
    | Some t \<Rightarrow>
        channelsCount t = 50 \<and>
        \<lparr>channel = 51, killedAt = Some 200, earliestRespawnAt = None, latestRespawnAt = None\<rparr>
          \<notin> set (channels t))"
proof -
  let ?c = "\<lparr>channel = 51, killedAt = Some 200, earliestRespawnAt = None, latestRespawnAt = None\<rparr>"
  obtain t s' where run: "normalizeTable plainHost rawBeyondLimit 0 freshState = (Some t, s')"
    using normalizeTable_accepts[OF accepts_rawBeyondLimit] by blast
  note d = normalizeTable_SomeD[OF run]
  have "?c \<notin> set (rebuiltChannels rawBeyondLimit)"
    using rebuiltChannels_bound[of ?c rawBeyondLimit]
    by (auto simp: finalChannelsCount_rawBeyondLimit)
  then show ?thesis
    by (simp add: run d accepts_rawBeyondLimit uniqueChannels_rawBeyondLimit
        finalChannelsCount_rawBeyondLimit)
qed

text \<open>
  C1, amended: for every raw table that \<^verbatim>\<open>normalizeTable\<close> accepts, the call returns a
  table whose \<open>channelsCount\<close> is the clamp to \<open>[1, 50]\<close> of the larger of the requested
  count and the highest observed channel number (\<open>maxChannel\<close>, the maximum of the
  channel numbers of the parsed entries, or 0 when there is none); every entry that
  survives deduplication and whose channel number is at most 50 appears in the output
  channels with its timer data, and every entry whose channel number exceeds 50 is left
  out.
\<close>

theorem normalizeTable_count_and_observed:
  assumes "accepts table"
  shows "\<exists>t s'. normalizeTable P table index s = (Some t, s') \<and>
           channelsCount t
             = max 1 (min 50 (real_of_int \<lfloor>max (requestedCount table) (maxChannel table)\<rfloor>)) \<and>
           maxChannel table
             = (if parsedChannels table = [] then 0
                else Max (channel ` set (parsedChannels table))) \<and>
           (\<forall>c \<in> set (uniqueChannels table). channel c \<le> 50 \<longrightarrow> c \<in> set (channels t)) \<and>
           (\<forall>c \<in> set (uniqueChannels table). 50 < channel c \<longrightarrow> c \<notin> set (channels t))"
proof -
  obtain t s' where run: "normalizeTable P table index s = (Some t, s')"
    using normalizeTable_accepts[OF assms] by blast
  note d = normalizeTable_SomeD[OF run]
  have count: "channelsCount t
      = max 1 (min 50 (real_of_int \<lfloor>max (requestedCount table) (maxChannel table)\<rfloor>))"
    by (simp add: d finalChannelsCount_def clampChannelsCount_def MIN_CHANNELS_def
        MAX_CHANNELS_def)
  have kept: "\<forall>c \<in> set (uniqueChannels table). channel c \<le> 50 \<longrightarrow> c \<in> set (channels t)"
    by (simp add: d rebuiltChannels_keeps)
  have dropped: "\<forall>c \<in> set (uniqueChannels table). 50 < channel c \<longrightarrow> c \<notin> set (channels t)"
  proof (intro ballI impI notI)
    fix c assume "50 < channel c" "c \<in> set (channels t)"
    then have "50 < finalChannelsCount table"
      using rebuiltChannels_bound[of c table] by (simp add: d)
    then show False
      using clamp_range[of "max (requestedCount table) (maxChannel table)"]
      by (simp add: finalChannelsCount_def)
  qed
  from run count maxChannel_Max[of table] kept dropped show ?thesis by blast
qed

theorem normalizeTable_count_and_observed_witness:
  "accepts rawBeyondLimit \<and>
   (\<exists>t s'. normalizeTable plainHost rawBeyondLimit 0 freshState = (Some t, s') \<and>
      channelsCount t = 50 \<and>
      \<lparr>channel = 2, killedAt = Some 300, earliestRespawnAt = None, latestRespawnAt = None\<rparr>
        \<in> set (channels t))"
  using normalizeTable_count_and_observed[OF accepts_rawBeyondLimit, of plainHost 0 freshState]
  by (auto simp: accepts_rawBeyondLimit uniqueChannels_rawBeyondLimit count_defs)

section \<open>Claim C2: the round trip\<close>

text \<open>
  C2, as stated, asks of a table a non-empty \<open>bossName\<close>. That is not enough: the table
  \<open>blankName\<close> is well formed, its boss name is a single space, and on a host whose
  codecs round-trip its payload the import of its export skips it with a warning and
  returns no table.
\<close>

theorem blank_boss_name_lost_in_round_trip:
  "wellFormed blankName \<and>
   hostRoundTrips sampleHost (payloadToJson (exportPayload sampleHost [blankName] 0)) \<and>
   importState sampleHost (exportState sampleHost [blankName] 0) 1
     = Inr \<lparr>payload = \<lparr>version = 1, storageVersion = ''boss-timer/v1'',
                      exportedAt = 1700000000000, timezone = ''Asia/Seoul'', tables = []\<rparr>,
            warnings = [''Skipped table #1: missing bossName.'']\<rparr>"
proof -
  have host: "hostRoundTrips sampleHost (payloadToJson (exportPayload sampleHost [blankName] 0))"
    by (simp only: payload_blank host_blank)
  have "importState sampleHost (exportState sampleHost [blankName] 0) 1
          = importParsed sampleHost backupOfBlank 1"
    by (simp add: importState_def parseEnvelope_exportState[OF host] payload_blank)
  also have "\<dots> = Inr \<lparr>payload = \<lparr>version = 1, storageVersion = ''boss-timer/v1'',
                      exportedAt = 1700000000000, timezone = ''Asia/Seoul'', tables = []\<rparr>,
            warnings = [''Skipped table #1: missing bossName.'']\<rparr>"
    by (simp add: importParsed_def backupOfBlank_def getProp_def mapGet_def mapFromEntries_def
        BACKUP_VERSION_def host_defs toEpoch_def normalizeTable_def isObject_def trim_def
        isWhiteSpace_def push_def showNat.simps digitChar_def)
  finally show ?thesis using wf_blankName host by simp
qed

text \<open>
  C2, amended: for every collection of well-formed tables whose boss names are not blank
  after trimming, on a host whose codecs round-trip the exported payload
  (\<open>hostRoundTrips\<close>), \<^verbatim>\<open>importState(exportState(tables))\<close> succeeds, its
  \<open>payload.tables\<close> equals \<open>tables\<close>, it carries no warning, and the whole payload is the
  one that was exported.
\<close>

theorem export_import_round_trip:
  assumes "\<forall>t \<in> set ts. wellFormed t \<and> length (trim (bossName t)) \<noteq> 0"
    and "hostRoundTrips P (payloadToJson (exportPayload P ts k))"
  shows "\<exists>r. importState P (exportState P ts k) k' = Inr r \<and>
             tables (payload r) = ts \<and> warnings r = [] \<and>
             payload r = exportPayload P ts k"
proof -
  have "importState P (exportState P ts k) k'
          = Inr \<lparr>payload = exportPayload P ts k, warnings = []\<rparr>"
    by (simp add: importState_def parseEnvelope_exportState[OF assms(2)]
        importParsed_payload[OF assms(1)])
  then show ?thesis by (simp add: exportPayload_def)
qed

theorem export_import_round_trip_witness:
  "wellFormed localBalrog \<and> length (trim (bossName localBalrog)) \<noteq> 0 \<and>
   hostRoundTrips sampleHost (payloadToJson (exportPayload sampleHost [localBalrog] 0)) \<and>
   (\<exists>r. importState sampleHost (exportState sampleHost [localBalrog] 0) 1 = Inr r \<and>
        tables (payload r) = [localBalrog] \<and> warnings r = [])"
proof -
  have nb: "length (trim (bossName localBalrog)) \<noteq> 0"
    by (simp add: sample_defs trim_def isWhiteSpace_def)
  have host: "hostRoundTrips sampleHost (payloadToJson (exportPayload sampleHost [localBalrog] 0))"
    by (simp only: payload_balrog host_balrog)
  have tabs: "\<forall>t \<in> set [localBalrog]. wellFormed t \<and> length (trim (bossName t)) \<noteq> 0"
    using wf_localBalrog nb by simp
  from export_import_round_trip[OF tabs host, of 1] wf_localBalrog nb host
  show ?thesis by blast
qed

section \<open>Claim C3: the invariant of a table\<close>

text \<open>
  C3, as stated, asks of \<^verbatim>\<open>applyMergeChoices\<close> only that the merged tables of the preview
  are well formed. That is not enough: the merged table of \<open>forgedPreview\<close> satisfies the
  invariant, its conflict for channel 3 holds sides numbered 5, and the resolved table
  has the channel numbers 1, 2, 5.
\<close>

theorem forged_preview_breaks_invariant:
  "list_all tableInvariant (mergedTables forgedPreview) \<and>
   \<not> list_all tableInvariant (applyMergeChoices forgedPreview Map.empty)"
  by (simp add: forged_result inv_localBalrog)
    (simp add: forgedPreview_def inv_localBalrog tableInvariant_def sample_defs)

text \<open>
  C3, amended: every table returned by \<^verbatim>\<open>normalizeTable\<close> satisfies the invariant
  (\<open>channels.length = channelsCount\<close>, the channel numbers are \<open>1..channelsCount\<close> in
  ascending order, \<open>channelsCount\<close> in \<open>[1, 50]\<close>); so does every merged table of
  \<^verbatim>\<open>buildMergePreview\<close> when the tables of both inputs satisfy it, and every conflict of
  that preview is consistent (both sides carry the channel number of the conflict); and so
  does every table returned by \<^verbatim>\<open>applyMergeChoices\<close> for a preview whose merged tables
  satisfy the invariant and whose conflicts are consistent.
\<close>

theorem table_invariant_maintained:
  "(normalizeTable P table index s = (Some t, s') \<longrightarrow> tableInvariant t) \<and>
   ((\<forall>x \<in> set existing. tableInvariant x) \<and> (\<forall>x \<in> set imported. tableInvariant x) \<and>
      buildMergePreview P existing imported = Some pv \<longrightarrow>
        (\<forall>x \<in> set (mergedTables pv). tableInvariant x) \<and>
        (\<forall>c \<in> set (conflicts pv). conflictConsistent c)) \<and>
   ((\<forall>x \<in> set (mergedTables pv'). tableInvariant x) \<and>
      (\<forall>c \<in> set (conflicts pv'). conflictConsistent c) \<longrightarrow>
        (\<forall>x \<in> set (applyMergeChoices pv' choices). tableInvariant x))"
  using normalizeTable_invariant[of P table index s t s']
    buildMergePreview_invariant[of P existing imported pv]
    applyMergeChoices_invariant[of pv' choices]
  by blast

theorem table_invariant_maintained_witness:
  "(\<exists>t s'. normalizeTable plainHost rawBeyondLimit 0 freshState = (Some t, s') \<and>
            tableInvariant t) \<and>
   (\<exists>pv. buildMergePreview plainHost [localBalrog] [importedBalrog] = Some pv \<and>
         list_all tableInvariant [localBalrog] \<and> list_all tableInvariant [importedBalrog] \<and>
         list_all tableInvariant (mergedTables pv) \<and>
         list_all conflictConsistent (conflicts pv) \<and>
         list_all tableInvariant (applyMergeChoices pv [''a:3:0'' \<mapsto> Theirs]))"
proof -
  obtain t s' where run: "normalizeTable plainHost rawBeyondLimit 0 freshState = (Some t, s')"
    using normalizeTable_accepts[OF accepts_rawBeyondLimit] by blast
  obtain pv where pv: "buildMergePreview plainHost [localBalrog] [importedBalrog] = Some pv"
    using preview_balrog by blast
  have inputs: "(\<forall>x \<in> set [localBalrog]. tableInvariant x) \<and>
      (\<forall>x \<in> set [importedBalrog]. tableInvariant x)"
    by (simp add: inv_localBalrog inv_importedBalrog)
  note main = table_invariant_maintained[where P = plainHost and table = rawBeyondLimit
      and index = 0 and s = freshState and t = t and s' = s' and existing = "[localBalrog]"
      and imported = "[importedBalrog]" and pv = pv and pv' = pv
      and choices = "[''a:3:0'' \<mapsto> Theirs]"]
  from main run have "tableInvariant t" by blast
  moreover from main inputs pv have
    "(\<forall>x \<in> set (mergedTables pv). tableInvariant x) \<and>
     (\<forall>c \<in> set (conflicts pv). conflictConsistent c)" by blast
  moreover from this main have
    "\<forall>x \<in> set (applyMergeChoices pv [''a:3:0'' \<mapsto> Theirs]). tableInvariant x" by blast
  ultimately show ?thesis
    using run pv inputs by (auto simp: list_all_iff)
qed

section \<open>Claim C4: normalization is idempotent\<close>

text \<open>
  C4: a table \<open>t\<close> that \<^verbatim>\<open>normalizeTable\<close> returned is returned unchanged when it is
  normalized again (same id, bossName, channelsCount, channels and createdAt), whatever
  the index and the host, and the state is unchanged: no warning is pushed and the clock
  is not read.
\<close>

theorem normalizeTable_idempotent:
  assumes "normalizeTable P table index s = (Some t, s')"
  shows "normalizeTable P' (tableValue t) index' s'' = (Some t, s'')"
  by (rule normalizeTable_tableValue[OF normalizeTable_invariant[OF assms]
        normalizeTable_id_nonempty[OF assms] normalizeTable_name_nonblank[OF assms]])

theorem normalizeTable_idempotent_witness:
  "\<exists>t s'. normalizeTable plainHost rawBeyondLimit 0 freshState = (Some t, s') \<and>
          normalizeTable plainHost (tableValue t) 1 s' = (Some t, s')"
proof -
  obtain t s' where run: "normalizeTable plainHost rawBeyondLimit 0 freshState = (Some t, s')"
    using normalizeTable_accepts[OF accepts_rawBeyondLimit] by blast
  from normalizeTable_idempotent[OF run, of plainHost 1 s'] run show ?thesis by blast
qed

section \<open>Claim C5: the identifiers of the merged tables\<close>

text \<open>
  C5: when the identifiers of the existing tables are pairwise distinct, the merged tables
  of every preview \<^verbatim>\<open>buildMergePreview\<close> returns have pairwise distinct identifiers,
  whatever the imported tables and their identifiers are; and the call does return a
  preview on a host whose generator always produces an unused identifier after finitely
  many further draws.
\<close>

theorem merged_ids_distinct:
  assumes "distinct (map table_id existing)"
  shows "(\<forall>pv. buildMergePreview P existing imported = Some pv \<longrightarrow>
            distinct (map table_id (mergedTables pv))) \<and>
         ((\<forall>ids k. \<exists>j \<ge> k. generateTableId P j \<notin> set ids) \<longrightarrow>
            (\<exists>pv. buildMergePreview P existing imported = Some pv))"
  using buildMergePreview_ids[OF _ assms] buildMergePreview_returns[of P existing imported]
  by blast

theorem merged_ids_distinct_witness:
  "distinct (map table_id [localBalrog]) \<and>
   (\<exists>pv. buildMergePreview plainHost [localBalrog] [importedZakum, importedPianus] = Some pv \<and>
         distinct (map table_id (mergedTables pv)) \<and> length (mergedTables pv) = 3)"
proof -
  have d: "distinct (map table_id [localBalrog])" by simp
  have gen: "\<forall>ids k. \<exists>j \<ge> k. generateTableId plainHost j \<notin> set ids"
    using plainHost_generator by blast
  from merged_ids_distinct[OF d, of plainHost "[importedZakum, importedPianus]"] gen
  obtain pv where
    pv: "buildMergePreview plainHost [localBalrog] [importedZakum, importedPianus] = Some pv"
    and dist: "distinct (map table_id (mergedTables pv))"
    by blast
  from pv have "length (mergedTables pv) = 3"
    by (auto simp: buildMergePreview_def cloneTable_id mergeTable_def sample_defs Let_def
        split: option.splits)
  with d pv dist show ?thesis by blast
qed

section \<open>Claim C6: the version check\<close>

text \<open>
  C6: for every input whose text decodes and parses to a value that passes
  \<^verbatim>\<open>isObject\<close>, \<^verbatim>\<open>importState\<close> fails with the unsupported-version error exactly when
  the \<^verbatim>\<open>version\<close> property of the parsed value is not the number 1 (absent, another
  number or another kind of value), whatever the rest of the payload holds.
\<close>

theorem unsupported_version_exactly:
  assumes "parseEnvelope P input = Inr parsed"
  shows "(importState P input k = Inl UnsupportedVersion)
           = (getProp parsed ''version'' \<noteq> JNum (Fin 1))"
  using assms importParsed_version[of P parsed k] by (simp add: importState_def)

theorem unsupported_version_exactly_witness:
  "parseEnvelope sampleHost textNewer = Inr envelopeNewer \<and>
   getProp envelopeNewer ''version'' = JNum (Fin 2) \<and>
   importState sampleHost textNewer 0 = Inl UnsupportedVersion"
proof -
  have v: "getProp envelopeNewer ''version'' = JNum (Fin 2)"
    by (simp add: envelopeNewer_def getProp_def mapGet_def mapFromEntries_def)
  from unsupported_version_exactly[OF parse_textNewer, of 0] v parse_textNewer
  show ?thesis by simp
qed

section \<open>Claim C7: one conflict on channel 3\<close>

text \<open>
  C7: the local table \<open>L\<close> and the imported table \<open>I\<close> carry the same boss name and
  satisfy the invariant of the data model; channel 3 of \<open>L\<close> holds \<open>killedAt = 100\<close> and
  nothing else, channel 3 of \<open>I\<close> holds \<open>killedAt = 200\<close> and nothing else, and every other
  channel of both is empty. Then \<^verbatim>\<open>buildMergePreview\<close> returns a preview with exactly one
  conflict, recorded for channel 3 under the id built from the local table's id, channel 3
  and the running count 0; \<open>defaultChoices\<close> maps this id, and only it, to \<open>Mine\<close>; the one
  merged table holds \<open>killedAt = 100\<close> on channel 3 and empty channels elsewhere; and
  \<^verbatim>\<open>applyMergeChoices\<close> with the choice \<open>Theirs\<close> for this id returns the same table with
  \<open>killedAt = 200\<close> on channel 3.
\<close>

theorem conflict_on_third_channel:
  assumes invL: "tableInvariant L" and invI: "tableInvariant I"
    and name: "bossName I = bossName L"
    and lenL: "3 \<le> length (channels L)" and lenI: "3 \<le> length (channels I)"
    and L3: "channels L ! 2 = killedChannel 3 100"
    and I3: "channels I ! 2 = killedChannel 3 200"
    and Lrest: "\<forall>i < length (channels L). i \<noteq> 2 \<longrightarrow> \<not> hasTimer (channels L ! i)"
    and Irest: "\<forall>i < length (channels I). i \<noteq> 2 \<longrightarrow> \<not> hasTimer (channels I ! i)"
  shows "\<exists>pv rest.
      rest = map (\<lambda>k. emptyChannel (real k))
               [4 ..< Suc (max (length (channels L)) (length (channels I)))] \<and>
      buildMergePreview P [L] [I] = Some pv \<and>
      conflicts pv =
        [\<lparr>conflict_id = table_id L @ '':3:0'', conflict_bossName = bossName L,
          tableId = table_id L, conflict_channel = 3,
          mine = killedChannel 3 100, theirs = killedChannel 3 200\<rparr>] \<and>
      defaultChoices pv = [table_id L @ '':3:0'' \<mapsto> Mine] \<and>
      mergedTables pv =
        [L\<lparr>channelsCount := real (max (length (channels L)) (length (channels I))),
           channels := [emptyChannel 1, emptyChannel 2, killedChannel 3 100] @ rest\<rparr>] \<and>
      (\<forall>choices. choices (table_id L @ '':3:0'') = Some Theirs \<longrightarrow>
         applyMergeChoices pv choices =
           [L\<lparr>channelsCount := real (max (length (channels L)) (length (channels I))),
              channels := [emptyChannel 1, emptyChannel 2, killedChannel 3 200] @ rest\<rparr>])"
proof -
  let ?N = "max (length (channels L)) (length (channels I))"
  let ?MB = "byChannelOf (channels L)" and ?TB = "byChannelOf (channels I)"
  let ?rest = "map (\<lambda>k. emptyChannel (real k)) [4 ..< Suc ?N]"
  let ?c = "\<lparr>conflict_id = table_id L @ '':3:0'', conflict_bossName = bossName L,
          tableId = table_id L, conflict_channel = 3,
          mine = killedChannel 3 100, theirs = killedChannel 3 200\<rparr>"
  let ?m = "L\<lparr>channelsCount := real ?N,
              channels := [emptyChannel 1, emptyChannel 2, killedChannel 3 100] @ ?rest\<rparr>"
  note cL = invariant_count[OF invL] and cI = invariant_count[OF invI]
  have N: "3 \<le> ?N" "1 \<le> ?N" "?N \<le> 50" using lenL cL cI by simp_all
  have mc: "clampChannelsCount (max (channelsCount L) (channelsCount I)) = real ?N"
    using clamp_fixed[OF N(2,3)] by (simp add: cL(1) cI(1))
  have empties: "\<not> hasTimer (channelOrEmpty ?MB k) \<and> \<not> hasTimer (channelOrEmpty ?TB k)"
    if "k \<noteq> 3" for k
    using side_empty[OF invL Lrest that] side_empty[OF invI Irest that] by simp
  have m3: "channelOrEmpty ?MB 3 = killedChannel 3 100"
    using side_third[OF invL lenL] L3 by simp
  have t3: "channelOrEmpty ?TB 3 = killedChannel 3 200"
    using side_third[OF invI lenI] I3 by simp
  have f1: "fold (mergeChannel P L ?MB ?TB) [1, 2] ([], [], Map.empty)
              = ([emptyChannel 1, emptyChannel 2], [], Map.empty)"
    using fold_mergeChannel_empty[of "[1, 2]" ?MB ?TB P L "[]" "[]" Map.empty] empties
    by simp
  have f2: "fold (mergeChannel P L ?MB ?TB) [3] ([emptyChannel 1, emptyChannel 2], [], Map.empty)
              = ([emptyChannel 1, emptyChannel 2, killedChannel 3 100], [?c],
                 [table_id L @ '':3:0'' \<mapsto> Mine])"
    using mergeChannel_third[OF m3 t3, of P L "[emptyChannel 1, emptyChannel 2]" Map.empty]
    by simp
  have f3: "fold (mergeChannel P L ?MB ?TB) [4 ..< Suc ?N]
              ([emptyChannel 1, emptyChannel 2, killedChannel 3 100], [?c],
               [table_id L @ '':3:0'' \<mapsto> Mine])
            = ([emptyChannel 1, emptyChannel 2, killedChannel 3 100] @ ?rest, [?c],
               [table_id L @ '':3:0'' \<mapsto> Mine])"
    by (rule fold_mergeChannel_empty) (use empties in auto)
  have f: "fold (mergeChannel P L ?MB ?TB) [1 ..< Suc ?N] ([], [], Map.empty)
            = ([emptyChannel 1, emptyChannel 2, killedChannel 3 100] @ ?rest, [?c],
               [table_id L @ '':3:0'' \<mapsto> Mine])"
    unfolding upt_split_third[OF N(1)] fold_append comp_def f1 f2 by (rule f3)
  let ?st0 = "\<lparr>m_tables = [L], m_conflicts = [], m_choices = Map.empty,
                usedIds = map table_id [L], generated = 0\<rparr>"
  have mi: "mergeInto P 0 I ?st0
      = ?st0\<lparr>m_tables := [?m], m_conflicts := [?c],
              m_choices := [table_id L @ '':3:0'' \<mapsto> Mine]\<rparr>"
    using f by (simp add: mergeInto_def Let_def mc del: upt_Suc)
  have mt: "mergeTable P I ?st0 = Some (mergeInto P 0 I ?st0)"
    by (simp add: mergeTable_def name)
  have pv: "buildMergePreview P [L] [I]
      = Some \<lparr>mergedTables = [?m], conflicts = [?c],
              defaultChoices = [table_id L @ '':3:0'' \<mapsto> Mine]\<rparr>"
    using mt mi by (simp add: buildMergePreview_def Let_def cloneTable_id del: upt_Suc)
  have ap: "applyMergeChoices \<lparr>mergedTables = [?m], conflicts = [?c],
              defaultChoices = [table_id L @ '':3:0'' \<mapsto> Mine]\<rparr> choices
      = [L\<lparr>channelsCount := real ?N,
           channels := [emptyChannel 1, emptyChannel 2, killedChannel 3 200] @ ?rest\<rparr>]"
    if "choices (table_id L @ '':3:0'') = Some Theirs" for choices
    using that findIndex_third[of 100 ?rest]
    by (simp add: applyMergeChoices_def cloneTable_id Let_def mapFromEntries_def applyConflict_def
        mapGet_def cloneChannel_id del: upt_Suc)
  show ?thesis
    using pv ap by (intro exI[of _ "\<lparr>mergedTables = [?m], conflicts = [?c],
              defaultChoices = [table_id L @ '':3:0'' \<mapsto> Mine]\<rparr>"] exI[of _ ?rest]) simp
qed

theorem conflict_on_third_channel_witness:
  "tableInvariant localBalrog \<and> tableInvariant importedBalrog \<and>
   bossName importedBalrog = bossName localBalrog \<and>
   channels localBalrog ! 2 = killedChannel 3 100 \<and>
   channels importedBalrog ! 2 = killedChannel 3 200 \<and>
   (\<exists>pv. buildMergePreview plainHost [localBalrog] [importedBalrog] = Some pv \<and>
      map conflict_id (conflicts pv) = [''a:3:0''] \<and>
      map conflict_channel (conflicts pv) = [3] \<and>
      defaultChoices pv ''a:3:0'' = Some Mine \<and>
      map channels (mergedTables pv)
        = [[emptyChannel 1, emptyChannel 2, killedChannel 3 100, emptyChannel 4]] \<and>
      map channels (applyMergeChoices pv [''a:3:0'' \<mapsto> Theirs])
        = [[emptyChannel 1, emptyChannel 2, killedChannel 3 200, emptyChannel 4]])"
proof -
  have name: "bossName importedBalrog = bossName localBalrog"
    by (simp add: sample_defs)
  have lens: "3 \<le> length (channels localBalrog)" "3 \<le> length (channels importedBalrog)"
    by (simp_all add: sample_defs)
  have L3: "channels localBalrog ! 2 = killedChannel 3 100"
    by (simp add: sample_defs)
  have I3: "channels importedBalrog ! 2 = killedChannel 3 200"
    by (simp add: sample_defs)
  have id: "table_id localBalrog = ''a''"
    by (simp add: sample_defs)
  have N: "max (length (channels localBalrog)) (length (channels importedBalrog)) = 4"
    by (simp add: sample_defs)
  from conflict_on_third_channel[OF inv_localBalrog inv_importedBalrog name lens L3 I3
      sample_rest, of plainHost]
  obtain pv where
    pv: "buildMergePreview plainHost [localBalrog] [importedBalrog] = Some pv"
    and cs: "conflicts pv =
        [\<lparr>conflict_id = ''a'' @ '':3:0'', conflict_bossName = bossName localBalrog,
          tableId = ''a'', conflict_channel = 3,
          mine = killedChannel 3 100, theirs = killedChannel 3 200\<rparr>]"
    and dc: "defaultChoices pv = [''a'' @ '':3:0'' \<mapsto> Mine]"
    and ms: "mergedTables pv =
        [localBalrog\<lparr>channelsCount := real 4,
           channels := [emptyChannel 1, emptyChannel 2, killedChannel 3 100]
                         @ map (\<lambda>k. emptyChannel (real k)) [4 ..< Suc 4]\<rparr>]"
    and ap: "\<forall>choices. choices (''a'' @ '':3:0'') = Some Theirs \<longrightarrow>
         applyMergeChoices pv choices =
           [localBalrog\<lparr>channelsCount := real 4,
              channels := [emptyChannel 1, emptyChannel 2, killedChannel 3 200]
                            @ map (\<lambda>k. emptyChannel (real k)) [4 ..< Suc 4]\<rparr>]"
    unfolding id N by blast
  have "applyMergeChoices pv [''a:3:0'' \<mapsto> Theirs] =
           [localBalrog\<lparr>channelsCount := real 4,
              channels := [emptyChannel 1, emptyChannel 2, killedChannel 3 200]
                            @ map (\<lambda>k. emptyChannel (real k)) [4 ..< Suc 4]\<rparr>]"
    using ap by simp
  then show ?thesis
    using pv cs dc ms name L3 I3 inv_localBalrog inv_importedBalrog
    by simp
qed

section \<open>Claim C8: merging a collection with itself\<close>

text \<open>
  C8, as stated, holds for every well-formed collection. It fails when two tables of the
  collection share a boss name: the imported copy of the second table is merged into the
  first table that carries the name, and channel 3 of the two boards differs.
\<close>

theorem same_boss_twice_conflicts_with_itself:
  "wellFormed localBalrog \<and> wellFormed secondBalrog \<and>
   distinct (map table_id [localBalrog, secondBalrog]) \<and>
   buildMergePreview plainHost [localBalrog, secondBalrog] [localBalrog, secondBalrog]
     = Some \<lparr>mergedTables = [localBalrog, secondBalrog],
             conflicts =
               [\<lparr>conflict_id = ''a:3:0'', conflict_bossName = ''Balrog'', tableId = ''a'',
                 conflict_channel = 3, mine = killedChannel 3 100,
                 theirs = killedChannel 3 200\<rparr>],
             defaultChoices = [''a:3:0'' \<mapsto> Mine]\<rparr>"
  by (simp add: wf_localBalrog wf_secondBalrog) (simp add: merge_eval sample_defs)

text \<open>
  C8, amended: for every collection \<open>L\<close> of well-formed tables whose boss names are
  pairwise distinct, \<^verbatim>\<open>buildMergePreview(L, L)\<close> returns no conflict, an empty
  \<open>defaultChoices\<close> and merged tables equal to \<open>L\<close>.
\<close>

theorem merge_with_itself:
  assumes "\<forall>t \<in> set L. wellFormed t" and "distinct (map bossName L)"
  shows "buildMergePreview P L L
           = Some \<lparr>mergedTables = L, conflicts = [], defaultChoices = Map.empty\<rparr>"
proof -
  have "\<forall>t \<in> set L. tableInvariant t" using assms(1) by (simp add: wellFormed_def)
  then have "mergeAll P L \<lparr>m_tables = L, m_conflicts = [], m_choices = Map.empty,
      usedIds = map table_id L, generated = 0\<rparr>
    = Some \<lparr>m_tables = L, m_conflicts = [], m_choices = Map.empty,
      usedIds = map table_id L, generated = 0\<rparr>"
    using assms(2) by (intro mergeAll_self) simp_all
  then show ?thesis
    by (simp add: buildMergePreview_def Let_def map_cloneTable)
qed

theorem merge_with_itself_witness:
  "list_all wellFormed [localBalrog, importedZakum] \<and>
   distinct (map bossName [localBalrog, importedZakum]) \<and>
   buildMergePreview plainHost [localBalrog, importedZakum] [localBalrog, importedZakum]
     = Some \<lparr>mergedTables = [localBalrog, importedZakum], conflicts = [],
             defaultChoices = Map.empty\<rparr>"
proof -
  have wf: "\<forall>t \<in> set [localBalrog, importedZakum]. wellFormed t"
    by (simp add: wf_localBalrog wf_importedZakum)
  have names: "distinct (map bossName [localBalrog, importedZakum])"
    by (simp add: sample_defs)
  from merge_with_itself[OF wf names, of plainHost] wf names show ?thesis by simp
qed

section \<open>Claim C9: an explicit count outside the range\<close>

text \<open>
  C9: for an accepted raw table whose explicit \<^verbatim>\<open>channelsCount\<close> is a finite number \<open>cc\<close>
  outside \<open>[1, 50]\<close>, \<^verbatim>\<open>normalizeTable\<close> returns a table (it is never a fatal error)
  whose \<open>channelsCount\<close> is exactly the larger of \<open>floor cc\<close> and the largest observed
  channel, clamped into \<open>[1, 50]\<close>, where the largest observed channel is the maximum of
  the channel numbers that parse, and 0 when there is none. So when the explicit count
  exceeds 50, as 1000 does, the resulting \<open>channelsCount\<close> is 50; when it is below 1 the
  result is the largest observed channel clamped into \<open>[1, 50]\<close>, which is 1 when no
  channel is observed. The first warning pushed cites the boss name and the clamped
  explicit value, 50 above the range and 1 below it.
\<close>

theorem explicit_count_clamped_with_warning:
  assumes "isObject table" and "getProp table ''bossName'' = JStr name"
    and "length (trim name) \<noteq> 0"
    and "getProp table ''channelsCount'' = JNum (Fin cc)" and "cc < 1 \<or> 50 < cc"
  shows "\<exists>t s' ws. normalizeTable P table index s = (Some t, s') \<and>
           1 \<le> channelsCount t \<and> channelsCount t \<le> 50 \<and>
           channelsCount t
             = max 1 (min 50 (max (real_of_int \<lfloor>cc\<rfloor>) (maxChannel table))) \<and>
           (50 < cc \<longrightarrow> channelsCount t = 50) \<and>
           (cc < 1 \<longrightarrow> channelsCount t = max 1 (min 50 (maxChannel table))) \<and>
           (cc < 1 \<and> parsedChannels table = [] \<longrightarrow> channelsCount t = 1) \<and>
           maxChannel table
             = (if parsedChannels table = [] then 0
                else Max (channel ` set (parsedChannels table))) \<and>
           pushed s' = pushed s @
             (''Table '' @ dquote @ name @ dquote @ '': channelsCount was clamped to ''
                @ (if 50 < cc then ''50'' else ''1'') @ ''.'') # ws"
proof -
  have acc: "accepts table" using assms(1-3) by (simp add: accepts_def)
  obtain t s' where run: "normalizeTable P table index s = (Some t, s')"
    using normalizeTable_accepts[OF acc] by blast
  note d = normalizeTable_SomeD[OF run]
  obtain k where k: "maxChannel table = real k" using maxChannel_natural by blast
  have rq: "requestedCount table = real_of_int \<lfloor>cc\<rfloor>"
    by (simp add: requestedCount_def assms(4))
  have range: "1 \<le> channelsCount t \<and> channelsCount t \<le> 50"
    using clamp_range[of "max (requestedCount table) (maxChannel table)"]
    by (simp add: d finalChannelsCount_def)
  have "max (real_of_int \<lfloor>cc\<rfloor>) (real k) = real_of_int (max \<lfloor>cc\<rfloor> (int k))"
    by simp
  then have pinned: "channelsCount t
      = max 1 (min 50 (max (real_of_int \<lfloor>cc\<rfloor>) (maxChannel table)))"
    by (simp only: d(3) finalChannelsCount_def rq k clampChannelsCount_def MIN_CHANNELS_def
        MAX_CHANNELS_def floor_of_int)
  have top: "channelsCount t = 50" if "50 < cc"
  proof -
    from that have "(50::int) \<le> \<lfloor>cc\<rfloor>" by (simp add: le_floor_iff)
    then have "(50::real) \<le> real_of_int \<lfloor>cc\<rfloor>" by linarith
    then show ?thesis unfolding pinned by linarith
  qed
  have low: "channelsCount t = max 1 (min 50 (maxChannel table))" if "cc < 1"
  proof -
    from that have "\<lfloor>cc\<rfloor> < 1" by (simp add: floor_less_iff)
    then have "real_of_int \<lfloor>cc\<rfloor> \<le> 0" by linarith
    then have "max (real_of_int \<lfloor>cc\<rfloor>) (maxChannel table) = maxChannel table"
      unfolding k by linarith
    then show ?thesis by (simp only: pinned)
  qed
  have none: "channelsCount t = 1" if "cc < 1 \<and> parsedChannels table = []"
    using low that maxChannel_none[of table] by simp
  have clamped: "clampChannelsCount cc = (if 50 < cc then 50 else 1)"
    using assms(5) by (auto simp: clamp_above clamp_below)
  then have differs: "clampChannelsCount cc \<noteq> cc"
    using assms(5) by auto
  have w1: "pushed (warnClamped P table name s) = pushed s @
      [''Table '' @ dquote @ name @ dquote @ '': channelsCount was clamped to ''
         @ (if 50 < cc then ''50'' else ''1'') @ ''.'']"
    using differs
    by (simp add: warnClamped_def assms(4) Let_def push_def clampWarning_def clamped
        numberToString_50 numberToString_1)
  obtain ws where "pushed (warnRebuilt P table name (warnClamped P table name s))
      = pushed (warnClamped P table name s) @ ws"
    using pushed_warnRebuilt by blast
  then have "pushed s' = pushed s @
      (''Table '' @ dquote @ name @ dquote @ '': channelsCount was clamped to ''
         @ (if 50 < cc then ''50'' else ''1'') @ ''.'') # ws"
    using normalizeTable_pushed[OF assms(1-3), of P index s] run w1 by simp
  with run range pinned top low none maxChannel_Max[of table] show ?thesis by blast
qed

theorem explicit_count_clamped_with_warning_witness:
  "isObject rawThousand \<and> getProp rawThousand ''bossName'' = JStr ''Balrog'' \<and>
   length (trim ''Balrog'') \<noteq> 0 \<and>
   getProp rawThousand ''channelsCount'' = JNum (Fin 1000) \<and>
   (\<exists>t s' ws. normalizeTable plainHost rawThousand 0 freshState = (Some t, s') \<and>
      channelsCount t = 50 \<and>
      pushed s' = (''Table '' @ dquote @ ''Balrog'' @ dquote
                     @ '': channelsCount was clamped to 50.'') # ws) \<and>
   getProp rawZeroFive ''channelsCount'' = JNum (Fin 0) \<and>
   (\<exists>t s' ws. normalizeTable plainHost rawZeroFive 0 freshState = (Some t, s') \<and>
      channelsCount t = 5 \<and>
      pushed s' = (''Table '' @ dquote @ ''Balrog'' @ dquote
                     @ '': channelsCount was clamped to 1.'') # ws) \<and>
   getProp rawMinusFive ''channelsCount'' = JNum (Fin (- 5)) \<and>
   (\<exists>t s' ws. normalizeTable plainHost rawMinusFive 0 freshState = (Some t, s') \<and>
      channelsCount t = 1 \<and>
      pushed s' = (''Table '' @ dquote @ ''Balrog'' @ dquote
                     @ '': channelsCount was clamped to 1.'') # ws)"
proof -
  have a: "(1000::real) < 1 \<or> 50 < (1000::real)" by simp
  have b: "(0::real) < 1 \<or> 50 < (0::real)" by simp
  have c: "(- 5::real) < 1 \<or> 50 < (- 5::real)" by simp
  from explicit_count_clamped_with_warning[OF props_rawThousand(1,2) nonblank_Balrog props_rawThousand(3) a,
      of plainHost 0 freshState]
  have first: "\<exists>t s' ws. normalizeTable plainHost rawThousand 0 freshState = (Some t, s') \<and>
      channelsCount t = 50 \<and>
      pushed s' = (''Table '' @ dquote @ ''Balrog'' @ dquote
                     @ '': channelsCount was clamped to 50.'') # ws"
    by (auto simp: freshState_def)
  from explicit_count_clamped_with_warning[OF props_rawZeroFive(1,2) nonblank_Balrog props_rawZeroFive(3) b,
      of plainHost 0 freshState]
  have second: "\<exists>t s' ws. normalizeTable plainHost rawZeroFive 0 freshState = (Some t, s') \<and>
      channelsCount t = 5 \<and>
      pushed s' = (''Table '' @ dquote @ ''Balrog'' @ dquote
                     @ '': channelsCount was clamped to 1.'') # ws"
    by (auto simp: freshState_def props_rawZeroFive(4))
  from explicit_count_clamped_with_warning[OF props_rawMinusFive(1,2) nonblank_Balrog props_rawMinusFive(3) c,
      of plainHost 0 freshState]
  have third: "\<exists>t s' ws. normalizeTable plainHost rawMinusFive 0 freshState = (Some t, s') \<and>
      channelsCount t = 1 \<and>
      pushed s' = (''Table '' @ dquote @ ''Balrog'' @ dquote
                     @ '': channelsCount was clamped to 1.'') # ws"
    by (auto simp: freshState_def props_rawMinusFive(4))
  from first second third props_rawThousand props_rawZeroFive(3) props_rawMinusFive(3)
    nonblank_Balrog
  show ?thesis by simp
qed

section \<open>Claim C10: the time zone warning\<close>

text \<open>
  C10: on an envelope with version 1 and a \<^verbatim>\<open>tables\<close> array, \<^verbatim>\<open>importState\<close> renders the raw
  \<^verbatim>\<open>timezone\<close> property with \<^verbatim>\<open>String\<close> whenever it is not the string \<open>APP_TIME_ZONE\<close>, outside
  any \<^verbatim>\<open>try\<close>. The import raises \<^verbatim>\<open>TypeError\<close>, with no payload and no warning, exactly when
  that conversion fails, and it fails when the raw value is an object with a \<^verbatim>\<open>toString\<close>
  entry of its own: there the warning for a time zone that is not a string is not
  produced. On every other such envelope the import returns; a warning that starts with
  \<^verbatim>\<open>Backup timezone is\<close> is among the returned warnings exactly when the raw property is
  not the string \<open>APP_TIME_ZONE\<close>, it is then the first warning and cites the raw value as
  \<^verbatim>\<open>String\<close> renders it, and \<open>payload.timezone\<close> is the host's time zone when the raw
  property is not a string. An absent, null, boolean or number time zone is always
  among these.
\<close>

theorem import_timezone_conversion:
  assumes "parseEnvelope P input = Inr parsed"
    and "getProp parsed ''version'' = JNum (Fin BACKUP_VERSION)"
    and "getProp parsed ''tables'' = JArr rawTables"
  shows "((importState P input k = Inl TypeError)
            = (jsString P (getProp parsed ''timezone'') = None)) \<and>
         (\<forall>kvs. getProp parsed ''timezone'' = JObj kvs \<and> ''toString'' \<in> fst ` set kvs \<longrightarrow>
            importState P input k = Inl TypeError) \<and>
         (jsString P (getProp parsed ''timezone'') \<noteq> None \<longrightarrow>
            (\<exists>r. importState P input k = Inr r \<and>
               ((\<exists>w \<in> set (warnings r). startsWith w ''Backup timezone is'')
                  = (getProp parsed ''timezone'' \<noteq> JStr (APP_TIME_ZONE P))) \<and>
               (getProp parsed ''timezone'' \<noteq> JStr (APP_TIME_ZONE P) \<longrightarrow>
                  (\<exists>tz rest. jsString P (getProp parsed ''timezone'') = Some tz \<and>
                             warnings r = timezoneWarning P tz # rest)) \<and>
               ((\<forall>tz. getProp parsed ''timezone'' \<noteq> JStr tz) \<longrightarrow>
                  timezone (payload r) = APP_TIME_ZONE P))) \<and>
         (getProp parsed ''timezone'' \<in> {JUndef, JNull} \<union> range JBool \<union> range JNum \<longrightarrow>
            (\<exists>r tz rest. importState P input k = Inr r \<and>
               jsString P (getProp parsed ''timezone'') = Some tz \<and>
               warnings r = timezoneWarning P tz # rest \<and>
               timezone (payload r) = APP_TIME_ZONE P))"
proof -
  let ?tz = "getProp parsed ''timezone''"
  have run: "importState P input k = importParsed P parsed k"
    by (simp add: importState_def assms(1))
  have raises: "importState P input k = Inl TypeError" if "jsString P ?tz = None"
    using importParsed_TypeError[OF assms(2,3) that] run by simp
  have returns: "\<exists>r. importState P input k = Inr r \<and>
       ((\<exists>w \<in> set (warnings r). startsWith w ''Backup timezone is'')
          = (?tz \<noteq> JStr (APP_TIME_ZONE P))) \<and>
       (?tz \<noteq> JStr (APP_TIME_ZONE P) \<longrightarrow>
          (\<exists>tz rest. jsString P ?tz = Some tz \<and> warnings r = timezoneWarning P tz # rest)) \<and>
       ((\<forall>tz. ?tz \<noteq> JStr tz) \<longrightarrow> timezone (payload r) = APP_TIME_ZONE P)"
    if some: "jsString P ?tz \<noteq> None"
  proof -
    from importParsed_returns[OF assms(2,3), of P k] some
    obtain r where r: "importParsed P parsed k = Inr r" by blast
    from importParsed_Inr[OF r] obtain ws0 ws where
      ws0: "(if ?tz \<noteq> JStr (APP_TIME_ZONE P)
         then map_option (\<lambda>tz. [timezoneWarning P tz]) (jsString P ?tz)
         else Some []) = Some ws0"
      and w: "warnings r = ws0 @ ws" and tw: "\<forall>w \<in> set ws. tableWarning w"
      and tz: "timezone (payload r) =
          (case ?tz of JStr tz \<Rightarrow> tz | _ \<Rightarrow> APP_TIME_ZONE P)"
      by blast
    have dflt: "timezone (payload r) = APP_TIME_ZONE P" if "\<forall>tz. ?tz \<noteq> JStr tz"
      using that tz by (cases ?tz) simp_all
    show ?thesis
    proof (cases "?tz = JStr (APP_TIME_ZONE P)")
      case True
      with ws0 have "ws0 = []" by simp
      with w tw True r run show ?thesis by (auto simp: tableWarning_def)
    next
      case False
      with ws0 obtain t where t: "jsString P ?tz = Some t" "ws0 = [timezoneWarning P t]"
        by auto
      have first: "warnings r = timezoneWarning P t # ws" using w t(2) by simp
      then have ex: "\<exists>w \<in> set (warnings r). startsWith w ''Backup timezone is''"
        using timezoneWarning_starts[of P t] by auto
      from False ex t(1) first dflt r run show ?thesis by auto
    qed
  qed
  have iff: "(importState P input k = Inl TypeError) = (jsString P ?tz = None)"
  proof (cases "jsString P ?tz = None")
    case True
    with raises show ?thesis by simp
  next
    case False
    with returns obtain r where "importState P input k = Inr r" by blast
    with False show ?thesis by simp
  qed
  have own: "\<forall>kvs. ?tz = JObj kvs \<and> ''toString'' \<in> fst ` set kvs \<longrightarrow>
      importState P input k = Inl TypeError"
  proof (intro allI impI)
    fix kvs assume "?tz = JObj kvs \<and> ''toString'' \<in> fst ` set kvs"
    then have "jsString P ?tz = None" by simp
    then show "importState P input k = Inl TypeError" by (rule raises)
  qed
  have prim: "\<exists>r tz rest. importState P input k = Inr r \<and> jsString P ?tz = Some tz \<and>
      warnings r = timezoneWarning P tz # rest \<and> timezone (payload r) = APP_TIME_ZONE P"
    if p: "?tz \<in> {JUndef, JNull} \<union> range JBool \<union> range JNum"
  proof -
    from p have some: "jsString P ?tz \<noteq> None" by auto
    from p have nostr: "\<forall>tz. ?tz \<noteq> JStr tz" by auto
    then have "?tz \<noteq> JStr (APP_TIME_ZONE P)" by simp
    with returns[OF some] nostr show ?thesis by blast
  qed
  from iff own returns prim show ?thesis by blast
qed

theorem import_timezone_conversion_witness:
  "parseEnvelope sampleHost textBadZone = Inr envelopeBadZone \<and>
   getProp envelopeBadZone ''version'' = JNum (Fin BACKUP_VERSION) \<and>
   getProp envelopeBadZone ''tables'' = JArr [] \<and>
   getProp envelopeBadZone ''timezone'' = JObj [(''toString'', JNum (Fin 1))] \<and>
   importState sampleHost textBadZone 0 = Inl TypeError \<and>
   parseEnvelope sampleHost textNumberZone = Inr envelopeNumberZone \<and>
   getProp envelopeNumberZone ''version'' = JNum (Fin BACKUP_VERSION) \<and>
   getProp envelopeNumberZone ''tables'' = JArr [] \<and>
   getProp envelopeNumberZone ''timezone'' = JNum (Fin 5) \<and>
   (\<exists>r rest. importState sampleHost textNumberZone 0 = Inr r \<and>
      warnings r = timezoneWarning sampleHost ''5'' # rest \<and>
      timezone (payload r) = APP_TIME_ZONE sampleHost)"
proof -
  from import_timezone_conversion[OF parse_textBadZone props_envelopeBadZone(1,2), of 0]
  have bad: "importState sampleHost textBadZone 0 = Inl TypeError"
    by (simp add: props_envelopeBadZone(3))
  from import_timezone_conversion[OF parse_textNumberZone props_envelopeNumberZone(1,2), of 0]
  have num: "\<exists>r rest. importState sampleHost textNumberZone 0 = Inr r \<and>
      warnings r = timezoneWarning sampleHost ''5'' # rest \<and>
      timezone (payload r) = APP_TIME_ZONE sampleHost"
    by (auto simp: props_envelopeNumberZone(3) numberToString_5)
  from bad num parse_textBadZone parse_textNumberZone props_envelopeBadZone
    props_envelopeNumberZone
  show ?thesis by simp
qed


end
